theory Spec2Isabelle
  imports Complex_Main
begin

section \<open>The stroke-editing engine of the whiteboard\<close>

text \<open>
  A shallow embedding of the pure functions of \<^verbatim>\<open>Whiteboard.tsx\<close>:
  \<^verbatim>\<open>findStrokeAtPosition\<close>, \<^verbatim>\<open>pointToSegmentDistance\<close>, \<^verbatim>\<open>eraseAtPosition\<close>,
  \<^verbatim>\<open>distSq\<close>, \<^verbatim>\<open>getSegmentCircleIntersections\<close>, \<^verbatim>\<open>isPointInCircle\<close>, and of the state
  updates that the pointer handlers pass to \<^verbatim>\<open>setLines\<close>.

  The functions are embedded twice. In this section a JavaScript \<^verbatim>\<open>number\<close> is a real
  number: arithmetic is exact, and there is neither rounding nor \<^verbatim>\<open>NaN\<close> nor an infinity.
  The one place where the source can create a \<^verbatim>\<open>NaN\<close> from finite numbers is a read past
  the end of a \<^verbatim>\<open>points\<close> array; each function below says what it does there. This
  embedding carries the properties that the control flow alone decides: which fragments
  the eraser emits and under which identifiers, which stroke the hit test reports, which
  stroke the stroke eraser removes. In the next section a \<^verbatim>\<open>number\<close> is an IEEE 754
  binary64 value; that embedding carries the properties that depend on the outcome of a
  comparison of computed numbers.
\<close>

subsection \<open>Data model\<close>

text \<open>
  \<^verbatim>\<open>interface StrokeLine { id: string; points: number[]; color: string; strokeWidth: number }\<close>.
  The field \<^verbatim>\<open>id\<close> is named \<open>stroke_id\<close>, since \<open>id\<close> is the identity function of HOL.
  \<^verbatim>\<open>points\<close> is the flat array \<^verbatim>\<open>[x0, y0, x1, y1, ...]\<close> of the source.
\<close>

record StrokeLine =
  stroke_id :: string
  points :: "real list"
  color :: string
  strokeWidth :: real

text \<open>An object \<^verbatim>\<open>{ x, y }\<close> of the source is a pair.\<close>

type_synonym xy = "real \<times> real"

definition MIN_POINT_DISTANCE :: real where
  "MIN_POINT_DISTANCE = 3"

subsection \<open>Decimal rendering of a counter\<close>

text \<open>
  The template literal \<^verbatim>\<open>`${stroke.id}-${segmentCount++}`\<close> renders the counter, a
  natural number, in decimal.
\<close>

definition digit_char :: "nat \<Rightarrow> char" where
  "digit_char d = ''0123456789'' ! d"

fun show_nat :: "nat \<Rightarrow> string" where
  "show_nat n = (if n < 10 then [digit_char n] else show_nat (n div 10) @ [digit_char (n mod 10)])"

declare show_nat.simps [simp del]

subsection \<open>Geometry primitives\<close>

definition distSq :: "xy \<Rightarrow> xy \<Rightarrow> real" where
  "distSq p1 p2 = (fst p1 - fst p2)\<^sup>2 + (snd p1 - snd p2)\<^sup>2"

definition isPointInCircle :: "real \<Rightarrow> real \<Rightarrow> real \<Rightarrow> real \<Rightarrow> real \<Rightarrow> bool" where
  "isPointInCircle px py cx cy r \<longleftrightarrow> (px - cx)\<^sup>2 + (py - cy)\<^sup>2 < r\<^sup>2"

text \<open>
  The intersections of the segment \<open>p1\<close>--\<open>p2\<close> with the circle of centre \<open>c\<close> and radius
  \<open>r\<close>: the roots \<open>t1\<close> and \<open>t2\<close> of the quadratic that lie in \<open>[0, 1]\<close>, in this order.
\<close>

definition getSegmentCircleIntersections :: "xy \<Rightarrow> xy \<Rightarrow> xy \<Rightarrow> real \<Rightarrow> xy list" where
  "getSegmentCircleIntersections p1 p2 c r =
     (let dx = fst p2 - fst p1;
          dy = snd p2 - snd p1;
          fx = fst p1 - fst c;
          fy = snd p1 - snd c;
          a = dx * dx + dy * dy;
          b = 2 * (fx * dx + fy * dy);
          C = (fx * fx + fy * fy) - r * r;
          discriminant = b * b - 4 * a * C
      in if discriminant \<ge> 0 then
           if a = 0 then []
           else
             let sqrtDisc = sqrt discriminant;
                 t1 = (- b - sqrtDisc) / (2 * a);
                 t2 = (- b + sqrtDisc) / (2 * a)
             in (if t1 \<ge> 0 \<and> t1 \<le> 1 then [(fst p1 + t1 * dx, snd p1 + t1 * dy)] else []) @
                (if t2 \<ge> 0 \<and> t2 \<le> 1 then [(fst p1 + t2 * dx, snd p1 + t2 * dy)] else [])
         else [])"

definition pointToSegmentDistance ::
  "real \<Rightarrow> real \<Rightarrow> real \<Rightarrow> real \<Rightarrow> real \<Rightarrow> real \<Rightarrow> real" where
  "pointToSegmentDistance px py x1 y1 x2 y2 =
     (let dx = x2 - x1;
          dy = y2 - y1;
          lengthSq = dx * dx + dy * dy
      in if lengthSq = 0 then sqrt ((px - x1)\<^sup>2 + (py - y1)\<^sup>2)
         else
           let t = ((px - x1) * dx + (py - y1) * dy) / lengthSq;
               t = max 0 (min 1 t);
               closestX = x1 + t * dx;
               closestY = y1 + t * dy
           in sqrt ((px - closestX)\<^sup>2 + (py - closestY)\<^sup>2))"

subsection \<open>Partial eraser\<close>

text \<open>
  The variables that the body of the loop over the strokes mutates: the array \<^verbatim>\<open>result\<close>
  of the enclosing function, and \<^verbatim>\<open>currentLinePoints\<close> and \<^verbatim>\<open>segmentCount\<close> of the
  current stroke.
\<close>

record erase_state =
  result :: "StrokeLine list"
  currentLinePoints :: "real list"
  segmentCount :: nat

text \<open>
  The closure \<^verbatim>\<open>finishLine\<close>: a run of at least four coordinates is pushed as a stroke
  that copies \<^verbatim>\<open>stroke\<close> but for its identifier and its points, and the counter is
  incremented; the run is emptied in both cases.
\<close>

definition finishLine :: "StrokeLine \<Rightarrow> erase_state \<Rightarrow> erase_state" where
  "finishLine stroke st =
     (if length (currentLinePoints st) \<ge> 4 then
        st\<lparr>result := result st @
              [stroke\<lparr>stroke_id := stroke_id stroke @ ''-'' @ show_nat (segmentCount st),
                      points := currentLinePoints st\<rparr>],
           segmentCount := segmentCount st + 1,
           currentLinePoints := []\<rparr>
      else st\<lparr>currentLinePoints := []\<rparr>)"

definition pushPoint :: "real \<Rightarrow> real \<Rightarrow> erase_state \<Rightarrow> erase_state" where
  "pushPoint px py st = st\<lparr>currentLinePoints := currentLinePoints st @ [px, py]\<rparr>"

text \<open>The loop \<^verbatim>\<open>for (const intersect of intersections)\<close>.\<close>

fun handleIntersections :: "StrokeLine \<Rightarrow> xy list \<Rightarrow> erase_state \<Rightarrow> erase_state" where
  "handleIntersections stroke [] st = st"
| "handleIntersections stroke (intersect # rest) st =
     handleIntersections stroke rest
       (if length (currentLinePoints st) > 0
        then finishLine stroke (pushPoint (fst intersect) (snd intersect) st)
        else pushPoint (fst intersect) (snd intersect) st)"

text \<open>
  One iteration of \<^verbatim>\<open>for (let i = 2; i < points.length; i += 2)\<close>, for the segment from
  \<open>(px, py)\<close> to \<open>(cx, cy)\<close>. \<^verbatim>\<open>Array.prototype.sort\<close> is stable, as is \<open>sort_key\<close>.
\<close>

definition segmentStep ::
  "real \<Rightarrow> real \<Rightarrow> real \<Rightarrow> StrokeLine \<Rightarrow> real \<Rightarrow> real \<Rightarrow> real \<Rightarrow> real \<Rightarrow> erase_state \<Rightarrow> erase_state" where
  "segmentStep x y eraserRadius stroke px py cx cy st =
     (let p1 = (px, py);
          p2 = (cx, cy);
          intersections = getSegmentCircleIntersections p1 p2 (x, y) eraserRadius
      in if length intersections = 0 then
           if \<not> isPointInCircle cx cy x y eraserRadius then pushPoint cx cy st
           else finishLine stroke st
         else
           let intersections = sort_key (distSq p1) intersections;
               st = handleIntersections stroke intersections st
           in if \<not> isPointInCircle cx cy x y eraserRadius then pushPoint cx cy st else st)"

text \<open>
  The loop over the coordinates from index 2 on; the last argument but one is what is left
  of \<^verbatim>\<open>points\<close>. On an array of odd length the source reads \<^verbatim>\<open>points[i + 1]\<close> past the
  end: JavaScript yields \<^verbatim>\<open>undefined\<close> there and pushes it into the run. No real number
  stands for it, so the model answers \<open>None\<close>. No writer of the program creates such an
  array: coordinates are always pushed in pairs.
\<close>

fun segmentLoop ::
  "real \<Rightarrow> real \<Rightarrow> real \<Rightarrow> StrokeLine \<Rightarrow> real \<Rightarrow> real \<Rightarrow> real list \<Rightarrow> erase_state \<Rightarrow> erase_state option" where
  "segmentLoop x y eraserRadius stroke px py [] st = Some st"
| "segmentLoop x y eraserRadius stroke px py [cx] st = None"
| "segmentLoop x y eraserRadius stroke px py (cx # cy # rest) st =
     segmentLoop x y eraserRadius stroke cx cy rest
       (segmentStep x y eraserRadius stroke px py cx cy st)"

text \<open>The run before the first segment: the first point, unless it is inside the circle.\<close>

definition startLine :: "real \<Rightarrow> real \<Rightarrow> real \<Rightarrow> real \<Rightarrow> real \<Rightarrow> real list" where
  "startLine x y eraserRadius px py =
     (if \<not> isPointInCircle px py x y eraserRadius then [px, py] else [])"

text \<open>The body of \<^verbatim>\<open>for (const stroke of strokes)\<close>, from the \<^verbatim>\<open>result\<close> so far to the next.\<close>

definition eraseStroke ::
  "real \<Rightarrow> real \<Rightarrow> real \<Rightarrow> StrokeLine \<Rightarrow> StrokeLine list \<Rightarrow> StrokeLine list option" where
  "eraseStroke x y eraserRadius stroke res =
     (if length (points stroke) < 4 then Some (res @ [stroke])
      else
        let px = points stroke ! 0;
            py = points stroke ! 1
        in case segmentLoop x y eraserRadius stroke px py (drop 2 (points stroke))
                  \<lparr>result = res,
                   currentLinePoints = startLine x y eraserRadius px py,
                   segmentCount = 0\<rparr> of
             None \<Rightarrow> None
           | Some st \<Rightarrow> Some (result (finishLine stroke st)))"

fun eraseStrokes ::
  "real \<Rightarrow> real \<Rightarrow> real \<Rightarrow> StrokeLine list \<Rightarrow> StrokeLine list \<Rightarrow> StrokeLine list option" where
  "eraseStrokes x y eraserRadius [] res = Some res"
| "eraseStrokes x y eraserRadius (stroke # strokes) res =
     (case eraseStroke x y eraserRadius stroke res of
        None \<Rightarrow> None
      | Some res' \<Rightarrow> eraseStrokes x y eraserRadius strokes res')"

definition eraseAtPosition ::
  "real \<Rightarrow> real \<Rightarrow> StrokeLine list \<Rightarrow> real \<Rightarrow> StrokeLine list option" where
  "eraseAtPosition x y strokes eraserRadius = eraseStrokes x y eraserRadius strokes []"

subsection \<open>Hit testing\<close>

text \<open>
  The inner loop \<^verbatim>\<open>for (let j = 0; j < points.length - 2; j += 2)\<close> of
  \<^verbatim>\<open>findStrokeAtPosition\<close>, from index \<open>j\<close> on: \<open>True\<close> when it returns from the function
  with the identifier of \<open>stroke\<close>. The bound \<^verbatim>\<open>j < points.length - 2\<close> is written
  \<open>j + 2 < length (points stroke)\<close> on natural numbers. On an array of odd length the last
  iteration reads \<^verbatim>\<open>points[j + 3]\<close> past the end: the distance is \<^verbatim>\<open>NaN\<close>, the comparison
  \<^verbatim>\<open>dist <= threshold\<close> is false, and the loop goes on.
\<close>

function segmentScan :: "real \<Rightarrow> real \<Rightarrow> real \<Rightarrow> StrokeLine \<Rightarrow> nat \<Rightarrow> bool" where
  "segmentScan x y hitRadius stroke j =
     (if j + 2 < length (points stroke) then
        if j + 3 < length (points stroke) then
          let x1 = points stroke ! j;
              y1 = points stroke ! (j + 1);
              x2 = points stroke ! (j + 2);
              y2 = points stroke ! (j + 3);
              dist = pointToSegmentDistance x y x1 y1 x2 y2;
              threshold = hitRadius + strokeWidth stroke / 2
          in if dist \<le> threshold then True
             else segmentScan x y hitRadius stroke (j + 2)
        else segmentScan x y hitRadius stroke (j + 2)
      else False)"
  by pat_completeness auto
termination
  by (relation "measure (\<lambda>(x, y, hitRadius, stroke, j). length (points stroke) - j)") auto

declare segmentScan.simps [simp del]

text \<open>
  The outer loop \<^verbatim>\<open>for (let i = strokes.length - 1; i >= 0; i--)\<close>; the last argument is
  \<open>i + 1\<close>, the number of strokes not yet looked at.
\<close>

fun strokeScan :: "real \<Rightarrow> real \<Rightarrow> StrokeLine list \<Rightarrow> real \<Rightarrow> nat \<Rightarrow> string option" where
  "strokeScan x y strokes hitRadius 0 = None"
| "strokeScan x y strokes hitRadius (Suc i) =
     (let stroke = strokes ! i
      in if segmentScan x y hitRadius stroke 0 then Some (stroke_id stroke)
         else strokeScan x y strokes hitRadius i)"

definition findStrokeAtPosition ::
  "real \<Rightarrow> real \<Rightarrow> StrokeLine list \<Rightarrow> real \<Rightarrow> string option" where
  "findStrokeAtPosition x y strokes hitRadius = strokeScan x y strokes hitRadius (length strokes)"

subsection \<open>Pointer handlers\<close>

datatype ToolType = Pen | Eraser

datatype EraserMode = Partial | Stroke

text \<open>
  The state of the component that the handlers read and write. \<^verbatim>\<open>dimensions\<close> and
  \<^verbatim>\<open>cursorPos\<close> only serve the rendering and are left out.
\<close>

record whiteboard =
  lines :: "StrokeLine list"
  isDrawing :: bool
  brushSize :: real
  strokeColor :: string
  activeTool :: ToolType
  eraserMode :: EraserMode
  eraserSize :: real

text \<open>
  The stroke eraser of both handlers: \<^verbatim>\<open>if (hitId) setLines(lines.filter((line) =>
  line.id !== hitId))\<close>. The test \<^verbatim>\<open>if (hitId)\<close> fails on \<^verbatim>\<open>null\<close> and on the empty string.
  In \<^verbatim>\<open>handlePointerMove\<close> the hit test reads \<^verbatim>\<open>lines\<close> and the filter runs on the
  \<^verbatim>\<open>prev\<close> of the state updater; the model takes them to be the same collection.
\<close>

definition eraseHitStroke :: "real \<Rightarrow> real \<Rightarrow> StrokeLine list \<Rightarrow> real \<Rightarrow> StrokeLine list" where
  "eraseHitStroke posx posy ls hitRadius =
     (case findStrokeAtPosition posx posy ls hitRadius of
        None \<Rightarrow> ls
      | Some hitId \<Rightarrow>
          if hitId \<noteq> [] then filter (\<lambda>line. stroke_id line \<noteq> hitId) ls else ls)"

text \<open>
  \<^verbatim>\<open>handlePointerDown\<close>. \<open>pos\<close> is \<^verbatim>\<open>stage?.getPointerPosition()\<close>, \<open>None\<close> when it is
  null; \<open>now\<close> is the value of \<^verbatim>\<open>Date.now()\<close>. The result is \<open>None\<close> only when
  \<open>eraseAtPosition\<close> is.
\<close>

definition handlePointerDown :: "xy option \<Rightarrow> nat \<Rightarrow> whiteboard \<Rightarrow> whiteboard option" where
  "handlePointerDown pos now st =
     (case pos of
        None \<Rightarrow> Some st
      | Some p \<Rightarrow>
          if activeTool st = Eraser then
            if eraserMode st = Stroke then
              Some (st\<lparr>lines := eraseHitStroke (fst p) (snd p) (lines st) (eraserSize st / 2)\<rparr>)
            else
              map_option (\<lambda>ls. st\<lparr>lines := ls\<rparr>)
                (eraseAtPosition (fst p) (snd p) (lines st) (eraserSize st / 2))
          else
            Some (st\<lparr>isDrawing := True,
                    lines := lines st @
                      [\<lparr>stroke_id = ''stroke-'' @ show_nat now,
                        points = [fst p, snd p],
                        color = strokeColor st,
                        strokeWidth = brushSize st\<rparr>]\<rparr>))"

text \<open>
  The state updater of the drawing branch of \<^verbatim>\<open>handlePointerMove\<close>,
  \<^verbatim>\<open>(prevLines) => { ... }\<close>. When the last stroke has fewer than two coordinates,
  \<^verbatim>\<open>lastX\<close> or \<^verbatim>\<open>lastY\<close> is \<^verbatim>\<open>undefined\<close>, the distance is \<^verbatim>\<open>NaN\<close>, the comparison
  \<^verbatim>\<open>distance < MIN_POINT_DISTANCE\<close> is false and the point is appended.
\<close>

definition appendPoint :: "real \<Rightarrow> real \<Rightarrow> StrokeLine list \<Rightarrow> StrokeLine list" where
  "appendPoint posx posy prevLines =
     (if prevLines = [] then prevLines
      else
        let lastLine = last prevLines;
            pts = points lastLine;
            updatedLine = lastLine\<lparr>points := pts @ [posx, posy]\<rparr>
        in if length pts < 2 then butlast prevLines @ [updatedLine]
           else
             let lastX = pts ! (length pts - 2);
                 lastY = pts ! (length pts - 1);
                 dx = posx - lastX;
                 dy = posy - lastY;
                 distance = sqrt (dx * dx + dy * dy)
             in if distance < MIN_POINT_DISTANCE then prevLines
                else butlast prevLines @ [updatedLine])"

text \<open>\<^verbatim>\<open>handlePointerMove\<close>; \<open>buttons\<close> is \<^verbatim>\<open>e.evt.buttons\<close>.\<close>

definition handlePointerMove :: "xy option \<Rightarrow> nat \<Rightarrow> whiteboard \<Rightarrow> whiteboard option" where
  "handlePointerMove pos buttons st =
     (case pos of
        None \<Rightarrow> Some st
      | Some p \<Rightarrow>
          if activeTool st = Eraser \<and> buttons = 1 then
            if eraserMode st = Stroke then
              Some (st\<lparr>lines := eraseHitStroke (fst p) (snd p) (lines st) (eraserSize st / 2)\<rparr>)
            else
              map_option (\<lambda>ls. st\<lparr>lines := ls\<rparr>)
                (eraseAtPosition (fst p) (snd p) (lines st) (eraserSize st / 2))
          else if \<not> isDrawing st then Some st
          else Some (st\<lparr>lines := appendPoint (fst p) (snd p) (lines st)\<rparr>))"

definition handlePointerUp :: "whiteboard \<Rightarrow> whiteboard" where
  "handlePointerUp st = st\<lparr>isDrawing := False\<rparr>"

subsection \<open>Notions of the specification\<close>

text \<open>
  A stroke has a segment within reach of the query point: some pair of consecutive points
  \<open>(x\<^sub>k, y\<^sub>k)\<close>, \<open>(x\<^sub>k\<^sub>+\<^sub>1, y\<^sub>k\<^sub>+\<^sub>1)\<close> of the stroke is at a clamped distance of at most
  \<open>radius + strokeWidth / 2\<close>.
\<close>

definition hasSegmentWithin :: "real \<Rightarrow> real \<Rightarrow> real \<Rightarrow> StrokeLine \<Rightarrow> bool" where
  "hasSegmentWithin x y radius s \<longleftrightarrow>
     (\<exists>k \<in> {0..<length (points s) div 2}.
        2 * k + 3 < length (points s) \<and>
        pointToSegmentDistance x y
          (points s ! (2 * k)) (points s ! (2 * k + 1))
          (points s ! (2 * k + 2)) (points s ! (2 * k + 3))
        \<le> radius + strokeWidth s / 2)"

text \<open>The point at parameter \<open>t\<close> of the segment from \<open>p1\<close> to \<open>p2\<close>.\<close>

definition lerp :: "xy \<Rightarrow> xy \<Rightarrow> real \<Rightarrow> xy" where
  "lerp p1 p2 t = (fst p1 + t * (fst p2 - fst p1), snd p1 + t * (snd p2 - snd p1))"

text \<open>The points of a flat array of coordinates; a last coordinate without partner is left out.\<close>

fun pointsOf :: "real list \<Rightarrow> xy list" where
  "pointsOf (px # py # rest) = (px, py) # pointsOf rest"
| "pointsOf _ = []"

text \<open>Every point of the flat array is strictly inside the circle of centre \<open>(x, y)\<close>.\<close>

fun allInside :: "real \<Rightarrow> real \<Rightarrow> real \<Rightarrow> real list \<Rightarrow> bool" where
  "allInside x y r (px # py # rest) = (isPointInCircle px py x y r \<and> allInside x y r rest)"
| "allInside x y r _ = True"

text \<open>
  The segment is entirely strictly outside the circle of centre \<open>c\<close> and radius \<open>r\<close>;
  and so is every segment of the polyline of a flat array. A polyline of fewer than two
  points has no segment.
\<close>

definition segmentOutside :: "xy \<Rightarrow> xy \<Rightarrow> xy \<Rightarrow> real \<Rightarrow> bool" where
  "segmentOutside p1 p2 c r \<longleftrightarrow> (\<forall>t. 0 \<le> t \<and> t \<le> 1 \<longrightarrow> distSq (lerp p1 p2 t) c > r\<^sup>2)"

fun segmentsOutside :: "xy \<Rightarrow> real \<Rightarrow> real list \<Rightarrow> bool" where
  "segmentsOutside c r (x1 # y1 # x2 # y2 # rest) =
     (segmentOutside (x1, y1) (x2, y2) c r \<and> segmentsOutside c r (x2 # y2 # rest))"
| "segmentsOutside c r _ = True"

text \<open>
  The point \<open>p\<close> is on the polyline of the points \<open>V\<close> at position \<open>u\<close>: on the segment
  from the \<open>k\<close>-th point to the next one at parameter \<open>t\<close>, where \<open>u = k + t\<close>. A list of
  points is in the order of the polyline when its points are on the polyline at positions
  that do not decrease.
\<close>

definition onPolyline :: "xy list \<Rightarrow> real \<Rightarrow> xy \<Rightarrow> bool" where
  "onPolyline V u p \<longleftrightarrow>
     (\<exists>k t. Suc k < length V \<and> 0 \<le> t \<and> t \<le> 1 \<and> u = real k + t \<and>
        p = lerp (V ! k) (V ! Suc k) t)"

definition inPolylineOrder :: "xy list \<Rightarrow> xy list \<Rightarrow> bool" where
  "inPolylineOrder V ps \<longleftrightarrow> (\<exists>us. sorted us \<and> list_all2 (onPolyline V) us ps)"

subsection \<open>Invariant of the partial eraser\<close>

text \<open>
  What holds of the \<open>i\<close>-th fragment pushed for the stroke \<open>s\<close>, and of the state between
  two steps of the loop over the segments of \<open>s\<close>: the strokes pushed since \<open>res\<close> are as
  many fragments as the counter says, and the run is a list of points of the polyline in
  its order, none beyond the position \<open>b\<close>.
\<close>

definition fragmentOK :: "xy list \<Rightarrow> StrokeLine \<Rightarrow> nat \<Rightarrow> StrokeLine \<Rightarrow> bool" where
  "fragmentOK V s i f \<longleftrightarrow>
     stroke_id f = stroke_id s @ ''-'' @ show_nat i \<and>
     color f = color s \<and> strokeWidth f = strokeWidth s \<and>
     4 \<le> length (points f) \<and> even (length (points f)) \<and>
     inPolylineOrder V (pointsOf (points f))"

definition eraseInv :: "xy list \<Rightarrow> StrokeLine \<Rightarrow> StrokeLine list \<Rightarrow> real \<Rightarrow> erase_state \<Rightarrow> bool" where
  "eraseInv V s res b st \<longleftrightarrow>
     (\<exists>frs. result st = res @ frs \<and> length frs = segmentCount st \<and>
        (\<forall>i<length frs. fragmentOK V s i (frs ! i))) \<and>
     even (length (currentLinePoints st)) \<and>
     (\<exists>us. sorted us \<and> (\<forall>u \<in> set us. u \<le> b) \<and>
        list_all2 (onPolyline V) us (pointsOf (currentLinePoints st)))"

subsection \<open>Example strokes\<close>

definition lowerLine :: StrokeLine where
  "lowerLine = \<lparr>stroke_id = ''a'', points = [0, 0, 10, 0], color = ''#000000'', strokeWidth = 2\<rparr>"

definition upperLine :: StrokeLine where
  "upperLine = \<lparr>stroke_id = ''b'', points = [0, 1, 10, 1], color = ''#ff0000'', strokeWidth = 2\<rparr>"

definition dotStroke :: StrokeLine where
  "dotStroke = \<lparr>stroke_id = ''dot'', points = [5, 5], color = ''#000000'', strokeWidth = 3\<rparr>"

definition erasingBoard :: whiteboard where
  "erasingBoard = \<lparr>lines = [lowerLine, upperLine], isDrawing = False, brushSize = 3,
     strokeColor = ''#000000'', activeTool = Eraser, eraserMode = Stroke, eraserSize = 4\<rparr>"

definition drawingBoard :: whiteboard where
  "drawingBoard = \<lparr>lines = [lowerLine, dotStroke], isDrawing = True, brushSize = 3,
     strokeColor = ''#000000'', activeTool = Pen, eraserMode = Stroke, eraserSize = 20\<rparr>"

definition shortLine :: StrokeLine where
  "shortLine = \<lparr>stroke_id = ''c'', points = [4, 5, 6, 5, 6, 7], color = ''#000000'', strokeWidth = 3\<rparr>"


section \<open>The same engine on double-precision numbers\<close>

text \<open>
  The functions above take a \<^verbatim>\<open>number\<close> to be a real number. The functions of this section
  follow the same source text on IEEE 754 binary64 values, so that what they say of a
  comparison at a threshold is what the program does. Every arithmetic operation rounds
  its exact result to the nearest double, ties to the even significand.
\<close>

subsection \<open>Values and rounding\<close>

text \<open>
  A value held by a \<^verbatim>\<open>number\<close> variable or array slot: a finite double (the real number it
  denotes), an infinity, \<^verbatim>\<open>NaN\<close>, or \<^verbatim>\<open>undefined\<close>, which is what a read past the end of an
  array yields. The two zeros of binary64 are one value here: they differ only in the sign
  of a zero result and under division by zero, and the source divides only after it has
  tested the divisor against zero.
\<close>

datatype jsnum = Num real | PosInf | NegInf | NaN | Undefined

text \<open>The integer nearest to \<open>z\<close>, the even one of the two at a tie.\<close>

definition round_even :: "real \<Rightarrow> int" where
  "round_even z =
     (let f = \<lfloor>z\<rfloor>; d = z - of_int f
      in if d < 1 / 2 then f else if d > 1 / 2 then f + 1 else if even f then f else f + 1)"

text \<open>
  The doubles around \<open>x \<noteq> 0\<close> are the multiples of \<open>2 powi ulp_exp x\<close>: 53 significant bits
  in the binade of \<open>x\<close>, and the spacing of the subnormal numbers below \<open>2 powi (- 1022)\<close>.
\<close>

definition ulp_exp :: "real \<Rightarrow> int" where
  "ulp_exp x = max \<lfloor>log 2 \<bar>x\<bar>\<rfloor> (- 1022) - 52"

text \<open>Rounding to nearest, ties to even; a result of magnitude \<open>2 ^ 1024\<close> or more overflows.\<close>

definition rnd :: "real \<Rightarrow> jsnum" where
  "rnd x =
     (if x = 0 then Num 0
      else
        let q = ulp_exp x;
            y = of_int (round_even (x / 2 powi q)) * 2 powi q
        in if \<bar>y\<bar> \<ge> 2 ^ 1024 then (if y > 0 then PosInf else NegInf) else Num y)"

definition rnd_sqrt :: "real \<Rightarrow> jsnum" where
  "rnd_sqrt u = rnd (sqrt u)"

subsection \<open>Operators\<close>

text \<open>
  \<^verbatim>\<open>+\<close>, unary and binary \<^verbatim>\<open>-\<close>, \<^verbatim>\<open>*\<close>, \<^verbatim>\<open>/\<close>, \<^verbatim>\<open>Math.sqrt\<close>, \<^verbatim>\<open>Math.max\<close>, \<^verbatim>\<open>Math.min\<close>,
  \<^verbatim>\<open><\<close>, \<^verbatim>\<open><=\<close>, \<^verbatim>\<open>>=\<close> and \<^verbatim>\<open>===\<close>. An operand \<^verbatim>\<open>undefined\<close> of an arithmetic operator or
  of a comparison is converted to \<^verbatim>\<open>NaN\<close>. \<^verbatim>\<open>x ** 2\<close> is taken to be the correctly rounded
  square, that is \<^verbatim>\<open>x * x\<close>.
\<close>

fun add64 :: "jsnum \<Rightarrow> jsnum \<Rightarrow> jsnum" where
  "add64 (Num u) (Num v) = rnd (u + v)"
| "add64 PosInf PosInf = PosInf"
| "add64 PosInf (Num v) = PosInf"
| "add64 (Num u) PosInf = PosInf"
| "add64 NegInf NegInf = NegInf"
| "add64 NegInf (Num v) = NegInf"
| "add64 (Num u) NegInf = NegInf"
| "add64 _ _ = NaN"

fun neg64 :: "jsnum \<Rightarrow> jsnum" where
  "neg64 (Num u) = Num (- u)"
| "neg64 PosInf = NegInf"
| "neg64 NegInf = PosInf"
| "neg64 _ = NaN"

definition sub64 :: "jsnum \<Rightarrow> jsnum \<Rightarrow> jsnum" where
  "sub64 a b = add64 a (neg64 b)"

fun mul64 :: "jsnum \<Rightarrow> jsnum \<Rightarrow> jsnum" where
  "mul64 (Num u) (Num v) = rnd (u * v)"
| "mul64 PosInf (Num v) = (if v = 0 then NaN else if v > 0 then PosInf else NegInf)"
| "mul64 NegInf (Num v) = (if v = 0 then NaN else if v > 0 then NegInf else PosInf)"
| "mul64 (Num u) PosInf = (if u = 0 then NaN else if u > 0 then PosInf else NegInf)"
| "mul64 (Num u) NegInf = (if u = 0 then NaN else if u > 0 then NegInf else PosInf)"
| "mul64 PosInf PosInf = PosInf"
| "mul64 NegInf NegInf = PosInf"
| "mul64 PosInf NegInf = NegInf"
| "mul64 NegInf PosInf = NegInf"
| "mul64 _ _ = NaN"

definition sq64 :: "jsnum \<Rightarrow> jsnum" where
  "sq64 a = mul64 a a"

fun div64 :: "jsnum \<Rightarrow> jsnum \<Rightarrow> jsnum" where
  "div64 (Num u) (Num v) =
     (if v = 0 then (if u = 0 then NaN else if u > 0 then PosInf else NegInf)
      else rnd (u / v))"
| "div64 (Num u) PosInf = Num 0"
| "div64 (Num u) NegInf = Num 0"
| "div64 PosInf (Num v) = (if v \<ge> 0 then PosInf else NegInf)"
| "div64 NegInf (Num v) = (if v \<ge> 0 then NegInf else PosInf)"
| "div64 _ _ = NaN"

fun sqrt64 :: "jsnum \<Rightarrow> jsnum" where
  "sqrt64 (Num u) = (if u < 0 then NaN else rnd_sqrt u)"
| "sqrt64 PosInf = PosInf"
| "sqrt64 _ = NaN"

fun lt64 :: "jsnum \<Rightarrow> jsnum \<Rightarrow> bool" where
  "lt64 (Num u) (Num v) = (u < v)"
| "lt64 (Num u) PosInf = True"
| "lt64 NegInf (Num v) = True"
| "lt64 NegInf PosInf = True"
| "lt64 _ _ = False"

fun le64 :: "jsnum \<Rightarrow> jsnum \<Rightarrow> bool" where
  "le64 (Num u) (Num v) = (u \<le> v)"
| "le64 (Num u) PosInf = True"
| "le64 NegInf (Num v) = True"
| "le64 NegInf PosInf = True"
| "le64 PosInf PosInf = True"
| "le64 NegInf NegInf = True"
| "le64 _ _ = False"

definition ge64 :: "jsnum \<Rightarrow> jsnum \<Rightarrow> bool" where
  "ge64 a b = le64 b a"

fun seq64 :: "jsnum \<Rightarrow> jsnum \<Rightarrow> bool" where
  "seq64 (Num u) (Num v) = (u = v)"
| "seq64 PosInf PosInf = True"
| "seq64 NegInf NegInf = True"
| "seq64 Undefined Undefined = True"
| "seq64 _ _ = False"

fun max64 :: "jsnum \<Rightarrow> jsnum \<Rightarrow> jsnum" where
  "max64 (Num u) (Num v) = Num (max u v)"
| "max64 PosInf (Num v) = PosInf"
| "max64 (Num u) PosInf = PosInf"
| "max64 PosInf PosInf = PosInf"
| "max64 PosInf NegInf = PosInf"
| "max64 NegInf PosInf = PosInf"
| "max64 NegInf (Num v) = Num v"
| "max64 (Num u) NegInf = Num u"
| "max64 NegInf NegInf = NegInf"
| "max64 _ _ = NaN"

fun min64 :: "jsnum \<Rightarrow> jsnum \<Rightarrow> jsnum" where
  "min64 (Num u) (Num v) = Num (min u v)"
| "min64 NegInf (Num v) = NegInf"
| "min64 (Num u) NegInf = NegInf"
| "min64 NegInf NegInf = NegInf"
| "min64 PosInf NegInf = NegInf"
| "min64 NegInf PosInf = NegInf"
| "min64 PosInf (Num v) = Num v"
| "min64 (Num u) PosInf = Num u"
| "min64 PosInf PosInf = PosInf"
| "min64 _ _ = NaN"

text \<open>\<^verbatim>\<open>xs[i]\<close>: \<^verbatim>\<open>undefined\<close> when the index is negative or past the end.\<close>

definition at64 :: "jsnum list \<Rightarrow> int \<Rightarrow> jsnum" where
  "at64 xs i = (if 0 \<le> i \<and> i < int (length xs) then xs ! nat i else Undefined)"

subsection \<open>Data model\<close>

record StrokeLine64 =
  id64 :: string
  points64 :: "jsnum list"
  color64 :: string
  strokeWidth64 :: jsnum

type_synonym xy64 = "jsnum \<times> jsnum"

subsection \<open>Geometry primitives\<close>

definition distSq64 :: "xy64 \<Rightarrow> xy64 \<Rightarrow> jsnum" where
  "distSq64 p1 p2 = add64 (sq64 (sub64 (fst p1) (fst p2))) (sq64 (sub64 (snd p1) (snd p2)))"

definition isPointInCircle64 :: "jsnum \<Rightarrow> jsnum \<Rightarrow> jsnum \<Rightarrow> jsnum \<Rightarrow> jsnum \<Rightarrow> bool" where
  "isPointInCircle64 px py cx cy r \<longleftrightarrow>
     lt64 (add64 (sq64 (sub64 px cx)) (sq64 (sub64 py cy))) (sq64 r)"

definition getSegmentCircleIntersections64 :: "xy64 \<Rightarrow> xy64 \<Rightarrow> xy64 \<Rightarrow> jsnum \<Rightarrow> xy64 list" where
  "getSegmentCircleIntersections64 p1 p2 c r =
     (let dx = sub64 (fst p2) (fst p1);
          dy = sub64 (snd p2) (snd p1);
          fx = sub64 (fst p1) (fst c);
          fy = sub64 (snd p1) (snd c);
          a = add64 (mul64 dx dx) (mul64 dy dy);
          b = mul64 (Num 2) (add64 (mul64 fx dx) (mul64 fy dy));
          C = sub64 (add64 (mul64 fx fx) (mul64 fy fy)) (mul64 r r);
          discriminant = sub64 (mul64 b b) (mul64 (mul64 (Num 4) a) C)
      in if ge64 discriminant (Num 0) then
           if seq64 a (Num 0) then []
           else
             let sqrtDisc = sqrt64 discriminant;
                 t1 = div64 (sub64 (neg64 b) sqrtDisc) (mul64 (Num 2) a);
                 t2 = div64 (add64 (neg64 b) sqrtDisc) (mul64 (Num 2) a)
             in (if ge64 t1 (Num 0) \<and> le64 t1 (Num 1)
                 then [(add64 (fst p1) (mul64 t1 dx), add64 (snd p1) (mul64 t1 dy))] else []) @
                (if ge64 t2 (Num 0) \<and> le64 t2 (Num 1)
                 then [(add64 (fst p1) (mul64 t2 dx), add64 (snd p1) (mul64 t2 dy))] else [])
         else [])"

definition pointToSegmentDistance64 ::
  "jsnum \<Rightarrow> jsnum \<Rightarrow> jsnum \<Rightarrow> jsnum \<Rightarrow> jsnum \<Rightarrow> jsnum \<Rightarrow> jsnum" where
  "pointToSegmentDistance64 px py x1 y1 x2 y2 =
     (let dx = sub64 x2 x1;
          dy = sub64 y2 y1;
          lengthSq = add64 (mul64 dx dx) (mul64 dy dy)
      in if seq64 lengthSq (Num 0) then
           sqrt64 (add64 (sq64 (sub64 px x1)) (sq64 (sub64 py y1)))
         else
           let t = div64 (add64 (mul64 (sub64 px x1) dx) (mul64 (sub64 py y1) dy)) lengthSq;
               t = max64 (Num 0) (min64 (Num 1) t);
               closestX = add64 x1 (mul64 t dx);
               closestY = add64 y1 (mul64 t dy)
           in sqrt64 (add64 (sq64 (sub64 px closestX)) (sq64 (sub64 py closestY))))"

subsection \<open>Partial eraser\<close>

record erase_state64 =
  result64 :: "StrokeLine64 list"
  currentLinePoints64 :: "jsnum list"
  segmentCount64 :: nat

definition finishLine64 :: "StrokeLine64 \<Rightarrow> erase_state64 \<Rightarrow> erase_state64" where
  "finishLine64 stroke st =
     (if length (currentLinePoints64 st) \<ge> 4 then
        st\<lparr>result64 := result64 st @
              [stroke\<lparr>id64 := id64 stroke @ ''-'' @ show_nat (segmentCount64 st),
                      points64 := currentLinePoints64 st\<rparr>],
           segmentCount64 := segmentCount64 st + 1,
           currentLinePoints64 := []\<rparr>
      else st\<lparr>currentLinePoints64 := []\<rparr>)"

definition pushPoint64 :: "jsnum \<Rightarrow> jsnum \<Rightarrow> erase_state64 \<Rightarrow> erase_state64" where
  "pushPoint64 px py st = st\<lparr>currentLinePoints64 := currentLinePoints64 st @ [px, py]\<rparr>"

fun handleIntersections64 :: "StrokeLine64 \<Rightarrow> xy64 list \<Rightarrow> erase_state64 \<Rightarrow> erase_state64" where
  "handleIntersections64 stroke [] st = st"
| "handleIntersections64 stroke (intersect # rest) st =
     handleIntersections64 stroke rest
       (if length (currentLinePoints64 st) > 0
        then finishLine64 stroke (pushPoint64 (fst intersect) (snd intersect) st)
        else pushPoint64 (fst intersect) (snd intersect) st)"

text \<open>
  \<^verbatim>\<open>intersections.sort((a, b) => distSq(p1, a) - distSq(p1, b))\<close>. The array comes from
  \<open>getSegmentCircleIntersections64\<close> and has two elements at most. On two elements every
  sorting procedure that meets the language definition swaps them if and only if the
  comparator is positive on them in their order; a comparator value \<^verbatim>\<open>NaN\<close> counts as
  zero, and the rounded difference has the sign of the exact one.
\<close>

definition sortByDist64 :: "xy64 \<Rightarrow> xy64 list \<Rightarrow> xy64 list" where
  "sortByDist64 p1 xs =
     (case xs of
        [a, b] \<Rightarrow>
          if lt64 (Num 0) (sub64 (distSq64 p1 a) (distSq64 p1 b)) then [b, a] else [a, b]
      | _ \<Rightarrow> xs)"

definition segmentStep64 ::
  "jsnum \<Rightarrow> jsnum \<Rightarrow> jsnum \<Rightarrow> StrokeLine64 \<Rightarrow> jsnum \<Rightarrow> jsnum \<Rightarrow> jsnum \<Rightarrow> jsnum \<Rightarrow>
   erase_state64 \<Rightarrow> erase_state64" where
  "segmentStep64 x y eraserRadius stroke px py cx cy st =
     (let p1 = (px, py);
          p2 = (cx, cy);
          intersections = getSegmentCircleIntersections64 p1 p2 (x, y) eraserRadius
      in if length intersections = 0 then
           if \<not> isPointInCircle64 cx cy x y eraserRadius then pushPoint64 cx cy st
           else finishLine64 stroke st
         else
           let intersections = sortByDist64 p1 intersections;
               st = handleIntersections64 stroke intersections st
           in if \<not> isPointInCircle64 cx cy x y eraserRadius then pushPoint64 cx cy st else st)"

text \<open>
  The loop \<^verbatim>\<open>for (let i = 2; i < points.length; i += 2)\<close> on what is left of \<^verbatim>\<open>points\<close>.
  On an array of odd length the last iteration reads \<^verbatim>\<open>points[i + 1]\<close> past the end and
  goes on with \<^verbatim>\<open>undefined\<close>.
\<close>

fun segmentLoop64 ::
  "jsnum \<Rightarrow> jsnum \<Rightarrow> jsnum \<Rightarrow> StrokeLine64 \<Rightarrow> jsnum \<Rightarrow> jsnum \<Rightarrow> jsnum list \<Rightarrow>
   erase_state64 \<Rightarrow> erase_state64" where
  "segmentLoop64 x y eraserRadius stroke px py [] st = st"
| "segmentLoop64 x y eraserRadius stroke px py [cx] st =
     segmentStep64 x y eraserRadius stroke px py cx Undefined st"
| "segmentLoop64 x y eraserRadius stroke px py (cx # cy # rest) st =
     segmentLoop64 x y eraserRadius stroke cx cy rest
       (segmentStep64 x y eraserRadius stroke px py cx cy st)"

text \<open>The body of \<^verbatim>\<open>for (const stroke of strokes)\<close>, from the \<^verbatim>\<open>result\<close> so far to the next.\<close>

definition eraseStroke64 ::
  "jsnum \<Rightarrow> jsnum \<Rightarrow> jsnum \<Rightarrow> StrokeLine64 \<Rightarrow> StrokeLine64 list \<Rightarrow> StrokeLine64 list" where
  "eraseStroke64 x y eraserRadius stroke res =
     (if length (points64 stroke) < 4 then res @ [stroke]
      else
        let px = points64 stroke ! 0;
            py = points64 stroke ! 1;
            st = \<lparr>result64 = res,
                  currentLinePoints64 =
                    (if \<not> isPointInCircle64 px py x y eraserRadius then [px, py] else []),
                  segmentCount64 = 0\<rparr>;
            st = segmentLoop64 x y eraserRadius stroke px py (drop 2 (points64 stroke)) st
        in result64 (finishLine64 stroke st))"

definition eraseAtPosition64 ::
  "jsnum \<Rightarrow> jsnum \<Rightarrow> StrokeLine64 list \<Rightarrow> jsnum \<Rightarrow> StrokeLine64 list" where
  "eraseAtPosition64 x y strokes eraserRadius =
     foldl (\<lambda>res stroke. eraseStroke64 x y eraserRadius stroke res) [] strokes"

subsection \<open>Hit testing\<close>

text \<open>
  The inner loop of \<^verbatim>\<open>findStrokeAtPosition\<close> from index \<open>j\<close> on; the bound
  \<^verbatim>\<open>j < points.length - 2\<close> is written \<open>j + 2 < length (points64 stroke)\<close>.
\<close>

function segmentScan64 :: "jsnum \<Rightarrow> jsnum \<Rightarrow> jsnum \<Rightarrow> StrokeLine64 \<Rightarrow> nat \<Rightarrow> bool" where
  "segmentScan64 x y hitRadius stroke j =
     (if j + 2 < length (points64 stroke) then
        let x1 = at64 (points64 stroke) (int j);
            y1 = at64 (points64 stroke) (int j + 1);
            x2 = at64 (points64 stroke) (int j + 2);
            y2 = at64 (points64 stroke) (int j + 3);
            dist = pointToSegmentDistance64 x y x1 y1 x2 y2;
            threshold = add64 hitRadius (div64 (strokeWidth64 stroke) (Num 2))
        in if le64 dist threshold then True
           else segmentScan64 x y hitRadius stroke (j + 2)
      else False)"
  by pat_completeness auto
termination
  by (relation "measure (\<lambda>(x, y, hitRadius, stroke, j). length (points64 stroke) - j)") auto

declare segmentScan64.simps [simp del]

fun strokeScan64 ::
  "jsnum \<Rightarrow> jsnum \<Rightarrow> StrokeLine64 list \<Rightarrow> jsnum \<Rightarrow> nat \<Rightarrow> string option" where
  "strokeScan64 x y strokes hitRadius 0 = None"
| "strokeScan64 x y strokes hitRadius (Suc i) =
     (let stroke = strokes ! i
      in if segmentScan64 x y hitRadius stroke 0 then Some (id64 stroke)
         else strokeScan64 x y strokes hitRadius i)"

definition findStrokeAtPosition64 ::
  "jsnum \<Rightarrow> jsnum \<Rightarrow> StrokeLine64 list \<Rightarrow> jsnum \<Rightarrow> string option" where
  "findStrokeAtPosition64 x y strokes hitRadius =
     strokeScan64 x y strokes hitRadius (length strokes)"

subsection \<open>Pointer handlers\<close>

record whiteboard64 =
  lines64 :: "StrokeLine64 list"
  isDrawing64 :: bool
  brushSize64 :: jsnum
  strokeColor64 :: string
  activeTool64 :: ToolType
  eraserMode64 :: EraserMode
  eraserSize64 :: jsnum

definition eraseHitStroke64 ::
  "jsnum \<Rightarrow> jsnum \<Rightarrow> StrokeLine64 list \<Rightarrow> jsnum \<Rightarrow> StrokeLine64 list" where
  "eraseHitStroke64 posx posy ls hitRadius =
     (case findStrokeAtPosition64 posx posy ls hitRadius of
        None \<Rightarrow> ls
      | Some hitId \<Rightarrow>
          if hitId \<noteq> [] then filter (\<lambda>line. id64 line \<noteq> hitId) ls else ls)"

definition appendPoint64 :: "jsnum \<Rightarrow> jsnum \<Rightarrow> StrokeLine64 list \<Rightarrow> StrokeLine64 list" where
  "appendPoint64 posx posy prevLines =
     (if prevLines = [] then prevLines
      else
        let lastLine = last prevLines;
            pts = points64 lastLine;
            lastX = at64 pts (int (length pts) - 2);
            lastY = at64 pts (int (length pts) - 1);
            dx = sub64 posx lastX;
            dy = sub64 posy lastY;
            distance = sqrt64 (add64 (mul64 dx dx) (mul64 dy dy))
        in if lt64 distance (Num MIN_POINT_DISTANCE) then prevLines
           else butlast prevLines @ [lastLine\<lparr>points64 := pts @ [posx, posy]\<rparr>])"

definition handlePointerMove64 :: "xy64 option \<Rightarrow> nat \<Rightarrow> whiteboard64 \<Rightarrow> whiteboard64" where
  "handlePointerMove64 pos buttons st =
     (case pos of
        None \<Rightarrow> st
      | Some p \<Rightarrow>
          if activeTool64 st = Eraser \<and> buttons = 1 then
            if eraserMode64 st = Stroke then
              st\<lparr>lines64 := eraseHitStroke64 (fst p) (snd p) (lines64 st)
                                (div64 (eraserSize64 st) (Num 2))\<rparr>
            else
              st\<lparr>lines64 := eraseAtPosition64 (fst p) (snd p) (lines64 st)
                                (div64 (eraserSize64 st) (Num 2))\<rparr>
          else if \<not> isDrawing64 st then st
          else st\<lparr>lines64 := appendPoint64 (fst p) (snd p) (lines64 st)\<rparr>)"

subsection \<open>Notions of the specification on double-precision numbers\<close>

text \<open>The real number that a finite double denotes.\<close>

fun val :: "jsnum \<Rightarrow> real" where
  "val (Num u) = u"
| "val _ = 0"

text \<open>
  The distance from the point \<open>q\<close> to the segment from \<open>p1\<close> to \<open>p2\<close> by the standard
  projection, clamped to \<open>[0, 1]\<close> along the segment, with every operation rounded.
\<close>

definition clampedDistance64 :: "xy64 \<Rightarrow> xy64 \<Rightarrow> xy64 \<Rightarrow> jsnum" where
  "clampedDistance64 q p1 p2 =
     (let dx = sub64 (fst p2) (fst p1);
          dy = sub64 (snd p2) (snd p1);
          lengthSq = add64 (mul64 dx dx) (mul64 dy dy)
      in if seq64 lengthSq (Num 0) then sqrt64 (distSq64 q p1)
         else
           let dot = add64 (mul64 (sub64 (fst q) (fst p1)) dx) (mul64 (sub64 (snd q) (snd p1)) dy);
               t = max64 (Num 0) (min64 (Num 1) (div64 dot lengthSq))
           in sqrt64 (distSq64 q (add64 (fst p1) (mul64 t dx), add64 (snd p1) (mul64 t dy))))"

text \<open>
  A stroke has a segment within reach of the query point: two consecutive points of the
  stroke span a segment whose rounded clamped distance from the query point is at most the
  rounded sum \<open>radius + strokeWidth / 2\<close>.
\<close>

definition hasSegmentWithin64 :: "jsnum \<Rightarrow> jsnum \<Rightarrow> jsnum \<Rightarrow> StrokeLine64 \<Rightarrow> bool" where
  "hasSegmentWithin64 x y radius s \<longleftrightarrow>
     (\<exists>k \<in> {0..<length (points64 s) div 2}.
        2 * k + 3 < length (points64 s) \<and>
        le64 (clampedDistance64 (x, y)
                (points64 s ! (2 * k), points64 s ! (2 * k + 1))
                (points64 s ! (2 * k + 2), points64 s ! (2 * k + 3)))
             (add64 radius (div64 (strokeWidth64 s) (Num 2))))"

text \<open>
  The tests of the source find every point of the flat array inside the circle, and no
  intersection of the circle with a segment of the polyline.
\<close>

fun allInside64 :: "jsnum \<Rightarrow> jsnum \<Rightarrow> jsnum \<Rightarrow> jsnum list \<Rightarrow> bool" where
  "allInside64 x y r (px # py # rest) = (isPointInCircle64 px py x y r \<and> allInside64 x y r rest)"
| "allInside64 x y r _ = True"

fun noIntersections64 :: "jsnum \<Rightarrow> jsnum \<Rightarrow> jsnum \<Rightarrow> jsnum list \<Rightarrow> bool" where
  "noIntersections64 x y r (x1 # y1 # x2 # y2 # rest) =
     (getSegmentCircleIntersections64 (x1, y1) (x2, y2) (x, y) r = [] \<and>
      noIntersections64 x y r (x2 # y2 # rest))"
| "noIntersections64 x y r _ = True"

text \<open>The tests of the source find no point of the flat array inside the circle.\<close>

fun noneInside64 :: "jsnum \<Rightarrow> jsnum \<Rightarrow> jsnum \<Rightarrow> jsnum list \<Rightarrow> bool" where
  "noneInside64 x y r (px # py # rest) =
     (\<not> isPointInCircle64 px py x y r \<and> noneInside64 x y r rest)"
| "noneInside64 x y r _ = True"

subsection \<open>Example strokes in double precision\<close>

text \<open>
  A numeric literal of the source denotes the double nearest to it: \<open>rnd (33 / 10)\<close> is the
  value of the literal \<^verbatim>\<open>3.3\<close>.
\<close>

definition lower64 :: StrokeLine64 where
  "lower64 = \<lparr>id64 = ''a'', points64 = [Num 0, Num 0, Num 10, Num 0], color64 = ''#000000'',
     strokeWidth64 = Num 2\<rparr>"

definition upper64 :: StrokeLine64 where
  "upper64 = \<lparr>id64 = ''b'', points64 = [Num 0, Num 1, Num 10, Num 1], color64 = ''#ff0000'',
     strokeWidth64 = Num 2\<rparr>"

definition dot64 :: StrokeLine64 where
  "dot64 = \<lparr>id64 = ''dot'', points64 = [Num 5, Num 5], color64 = ''#000000'',
     strokeWidth64 = Num 3\<rparr>"

definition spot64 :: StrokeLine64 where
  "spot64 = \<lparr>id64 = ''spot'', points64 = [rnd (3 / 10), rnd (1 / 2)], color64 = ''#000000'',
     strokeWidth64 = Num 3\<rparr>"

definition drawing64 :: whiteboard64 where
  "drawing64 = \<lparr>lines64 = [lower64, dot64], isDrawing64 = True, brushSize64 = Num 3,
     strokeColor64 = ''#000000'', activeTool64 = Pen, eraserMode64 = Stroke,
     eraserSize64 = Num 20\<rparr>"

definition sketch64 :: whiteboard64 where
  "sketch64 = \<lparr>lines64 = [spot64], isDrawing64 = True, brushSize64 = Num 3,
     strokeColor64 = ''#000000'', activeTool64 = Pen, eraserMode64 = Stroke,
     eraserSize64 = Num 20\<rparr>"

definition reach64 :: StrokeLine64 where
  "reach64 = \<lparr>id64 = ''s'', points64 = [rnd (16 / 5), rnd (1 / 2), rnd (266 / 5), rnd (1 / 2)],
     color64 = ''#000000'', strokeWidth64 = Num 5\<rparr>"

definition short64 :: StrokeLine64 where
  "short64 = \<lparr>id64 = ''c'', points64 = [Num 4, Num 5, Num 6, Num 5, Num 6, Num 7],
     color64 = ''#000000'', strokeWidth64 = Num 3\<rparr>"

definition touching64 :: StrokeLine64 where
  "touching64 = \<lparr>id64 = ''t'', points64 = [Num 10, Num 0, Num 20, Num 0],
     color64 = ''#000000'', strokeWidth64 = Num 3\<rparr>"

definition chord64 :: StrokeLine64 where
  "chord64 = \<lparr>id64 = ''s'',
     points64 = [rnd (303 / 10), rnd (91 / 2), rnd (303 / 10), rnd (139 / 2)],
     color64 = ''#000000'', strokeWidth64 = Num 3\<rparr>"

definition grazing64 :: StrokeLine64 where
  "grazing64 = \<lparr>id64 = ''s'',
     points64 = [rnd (16 / 5), rnd (464 / 5), rnd (36 / 5), rnd (449 / 5)],
     color64 = ''#000000'', strokeWidth64 = Num 3\<rparr>"

section \<open>Properties\<close>

lemma show_nat_0: "show_nat 0 = ''0''"
  by (simp add: show_nat.simps digit_char_def)

lemma show_nat_1: "show_nat (Suc 0) = ''1''"
  by (simp add: show_nat.simps digit_char_def)

lemma sqrt_4000000: "sqrt 4000000 = 2000"
  by (rule real_sqrt_unique) simp_all

text \<open>
  C1. The stroke from \<open>(0, 0)\<close> to \<open>(100, 0)\<close>, erased with the circle of centre
  \<open>(50, 0)\<close> and radius \<open>10\<close>, leaves exactly two fragments of two points each: the first
  ends at \<open>(40, 0)\<close>, the second starts at \<open>(60, 0)\<close>.
\<close>

theorem erase_middle_of_segment:
  "eraseAtPosition 50 0
     [\<lparr>stroke_id = i, points = [0, 0, 100, 0], color = c, strokeWidth = w\<rparr>] 10 =
   Some [\<lparr>stroke_id = i @ ''-0'', points = [0, 0, 40, 0], color = c, strokeWidth = w\<rparr>,
         \<lparr>stroke_id = i @ ''-1'', points = [60, 0, 100, 0], color = c, strokeWidth = w\<rparr>]"
  by (simp add: eraseAtPosition_def eraseStroke_def startLine_def isPointInCircle_def
      segmentStep_def getSegmentCircleIntersections_def sqrt_4000000 distSq_def
      finishLine_def pushPoint_def show_nat_0 show_nat_1 Let_def)

subsection \<open>Hit testing\<close>

lemma segmentScan_short: "length (points s) < 4 \<Longrightarrow> \<not> segmentScan x y hitRadius s j"
  by (simp add: segmentScan.simps [of x y hitRadius s j] segmentScan.simps [of x y hitRadius s "Suc (Suc j)"])

lemma segmentScan_iff:
  "segmentScan x y hitRadius s j \<longleftrightarrow>
     (\<exists>k. j + 2 * k + 3 < length (points s) \<and>
        pointToSegmentDistance x y
          (points s ! (j + 2 * k)) (points s ! (j + 2 * k + 1))
          (points s ! (j + 2 * k + 2)) (points s ! (j + 2 * k + 3))
        \<le> hitRadius + strokeWidth s / 2)"
  (is "?L j \<longleftrightarrow> (\<exists>k. ?P j k)")
proof (induction x y hitRadius s j rule: segmentScan.induct)
  case (1 x y hitRadius s j)
  let ?Q = "\<lambda>j k. j + 2 * k + 3 < length (points s) \<and>
        pointToSegmentDistance x y
          (points s ! (j + 2 * k)) (points s ! (j + 2 * k + 1))
          (points s ! (j + 2 * k + 2)) (points s ! (j + 2 * k + 3))
        \<le> hitRadius + strokeWidth s / 2"
  have shift: "(\<exists>k. ?Q j k) \<longleftrightarrow> ?Q j 0 \<or> (\<exists>k. ?Q (j + 2) k)"
  proof
    assume "\<exists>k. ?Q j k"
    then obtain k where k: "?Q j k" ..
    show "?Q j 0 \<or> (\<exists>k. ?Q (j + 2) k)"
    proof (cases k)
      case 0
      with k show ?thesis by simp
    next
      case (Suc m)
      with k have "?Q (j + 2) m" by (simp add: algebra_simps)
      then show ?thesis by blast
    qed
  next
    assume "?Q j 0 \<or> (\<exists>k. ?Q (j + 2) k)"
    then show "\<exists>k. ?Q j k"
    proof
      assume "?Q j 0" then show ?thesis by blast
    next
      assume "\<exists>k. ?Q (j + 2) k"
      then obtain m where "?Q (j + 2) m" ..
      then have "?Q j (Suc m)" by (simp add: algebra_simps)
      then show ?thesis by blast
    qed
  qed
  show ?case
  proof (cases "j + 3 < length (points s)")
    case True
    then have j2: "j + 2 < length (points s)" by simp
    show ?thesis
    proof (cases "pointToSegmentDistance x y (points s ! j) (points s ! (j + 1))
          (points s ! (j + 2)) (points s ! (j + 3)) \<le> hitRadius + strokeWidth s / 2")
      case hit: True
      then have "?Q j 0" using True by simp
      then have "\<exists>k. ?Q j k" by blast
      moreover have "segmentScan x y hitRadius s j"
        using hit True j2 by (subst segmentScan.simps) (simp add: Let_def)
      ultimately show ?thesis by simp
    next
      case miss: False
      then have nq: "\<not> ?Q j 0" by simp
      have "segmentScan x y hitRadius s j = segmentScan x y hitRadius s (j + 2)"
        using miss True j2 by (subst segmentScan.simps) (simp add: Let_def)
      also have "\<dots> \<longleftrightarrow> (\<exists>k. ?Q (j + 2) k)"
        using "1.IH"(1) [OF j2 True refl refl refl refl refl refl miss] .
      finally show ?thesis using shift nq by blast
    qed
  next
    case False
    then have "\<not> (\<exists>k. ?Q j k)" by auto
    moreover have "\<not> segmentScan x y hitRadius s j"
      using False
      by (simp add: segmentScan.simps [of x y hitRadius s j]
          segmentScan.simps [of x y hitRadius s "Suc (Suc j)"])
    ultimately show ?thesis by simp
  qed
qed

lemma segmentScan_hasSegmentWithin:
  "segmentScan x y hitRadius s 0 \<longleftrightarrow> hasSegmentWithin x y hitRadius s"
proof -
  have "hasSegmentWithin x y hitRadius s \<longleftrightarrow>
     (\<exists>k. 2 * k + 3 < length (points s) \<and>
        pointToSegmentDistance x y
          (points s ! (2 * k)) (points s ! (2 * k + 1))
          (points s ! (2 * k + 2)) (points s ! (2 * k + 3))
        \<le> hitRadius + strokeWidth s / 2)"
    unfolding hasSegmentWithin_def
  proof (intro iffI; elim bexE exE conjE)
    fix k
    assume k: "2 * k + 3 < length (points s)"
      and d: "pointToSegmentDistance x y
          (points s ! (2 * k)) (points s ! (2 * k + 1))
          (points s ! (2 * k + 2)) (points s ! (2 * k + 3))
        \<le> hitRadius + strokeWidth s / 2"
    from k have "k \<in> {0..<length (points s) div 2}" by auto
    with k d show "\<exists>k \<in> {0..<length (points s) div 2}.
        2 * k + 3 < length (points s) \<and>
        pointToSegmentDistance x y
          (points s ! (2 * k)) (points s ! (2 * k + 1))
          (points s ! (2 * k + 2)) (points s ! (2 * k + 3))
        \<le> hitRadius + strokeWidth s / 2" by blast
  qed blast
  then show ?thesis by (simp add: segmentScan_iff [of x y hitRadius s 0])
qed

lemma strokeScan_find:
  "n \<le> length strokes \<Longrightarrow>
   strokeScan x y strokes hitRadius n =
     map_option stroke_id (find (hasSegmentWithin x y hitRadius) (rev (take n strokes)))"
proof (induction n)
  case 0
  then show ?case by simp
next
  case (Suc n)
  then have "take (Suc n) strokes = take n strokes @ [strokes ! n]"
    by (simp add: take_Suc_conv_app_nth)
  with Suc show ?case
    by (simp add: Let_def segmentScan_hasSegmentWithin)
qed

lemma findStroke_find:
  "findStrokeAtPosition x y strokes hitRadius =
     map_option stroke_id (find (hasSegmentWithin x y hitRadius) (rev strokes))"
  by (simp add: findStrokeAtPosition_def strokeScan_find)

lemma find_append_None: "find P xs = None \<Longrightarrow> find P (xs @ ys) = find P ys"
  by (induction xs) (auto split: if_splits)

lemma find_rev_last:
  assumes "j < length xs" "P (xs ! j)" "\<forall>k. j < k \<and> k < length xs \<longrightarrow> \<not> P (xs ! k)"
  shows "find P (rev xs) = Some (xs ! j)"
proof -
  have xs: "xs = take j xs @ (xs ! j) # drop (Suc j) xs"
    using assms(1) by (simp add: id_take_nth_drop)
  have "\<forall>z \<in> set (drop (Suc j) xs). \<not> P z"
  proof
    fix z assume "z \<in> set (drop (Suc j) xs)"
    then obtain m where "m < length xs - Suc j" "z = xs ! (Suc j + m)"
      by (auto simp: in_set_conv_nth)
    then show "\<not> P z" using assms(3) by auto
  qed
  then have "find P (rev (drop (Suc j) xs)) = None"
    by (simp add: find_None_iff)
  then have "find P (rev (drop (Suc j) xs) @ (xs ! j) # rev (take j xs)) = Some (xs ! j)"
    using assms(2) by (simp add: find_append_None)
  then show ?thesis by (subst xs) simp
qed

lemma lowerLine_within: "hasSegmentWithin 5 0 2 lowerLine"
  unfolding hasSegmentWithin_def
  by (rule bexI [of _ 0]) (simp_all add: lowerLine_def pointToSegmentDistance_def)

lemma upperLine_within: "hasSegmentWithin 5 0 2 upperLine"
  unfolding hasSegmentWithin_def
  by (rule bexI [of _ 0]) (simp_all add: upperLine_def pointToSegmentDistance_def)

lemma findStroke_Some_hit:
  assumes "findStrokeAtPosition x y strokes hitRadius = Some sid"
  shows "\<exists>i<length strokes. stroke_id (strokes ! i) = sid \<and>
           hasSegmentWithin x y hitRadius (strokes ! i)"
proof -
  from assms obtain s where s: "find (hasSegmentWithin x y hitRadius) (rev strokes) = Some s"
    and sid: "sid = stroke_id s"
    by (auto simp: findStroke_find)
  from s obtain k where k: "k < length (rev strokes)" "hasSegmentWithin x y hitRadius (rev strokes ! k)"
    "s = rev strokes ! k"
    by (auto simp: find_Some_iff)
  from k(1,3) have "s \<in> set (rev strokes)" using nth_mem by blast
  with k have "hasSegmentWithin x y hitRadius s" "s \<in> set strokes" by simp_all
  then show ?thesis using sid by (auto simp: in_set_conv_nth)
qed

lemma short_not_within: "length (points s) < 4 \<Longrightarrow> \<not> hasSegmentWithin x y hitRadius s"
  using segmentScan_short [of s x y hitRadius 0] by (simp add: segmentScan_hasSegmentWithin)

lemma distinct_ids_eq:
  "distinct (map stroke_id ls) \<Longrightarrow> i < length ls \<Longrightarrow> s \<in> set ls \<Longrightarrow>
   stroke_id (ls ! i) = stroke_id s \<Longrightarrow> ls ! i = s"
  by (metis distinct_map inj_on_def nth_mem)

text \<open>
  C10. In a collection with distinct identifiers, \<open>findStrokeAtPosition\<close> never returns the
  identifier of a stroke with fewer than two points (fewer than four coordinates), whatever
  the query point and the radius: such a stroke has no segment for the scan to test. So the
  stroke eraser never deletes it.
\<close>

theorem single_point_stroke_never_hit:
  assumes "distinct (map stroke_id strokes)" "s \<in> set strokes" "length (points s) < 4"
  shows "findStrokeAtPosition x y strokes hitRadius \<noteq> Some (stroke_id s) \<and>
         s \<in> set (eraseHitStroke x y strokes hitRadius)"
proof -
  have ne: "findStrokeAtPosition x y strokes hitRadius \<noteq> Some (stroke_id s)"
  proof
    assume "findStrokeAtPosition x y strokes hitRadius = Some (stroke_id s)"
    from findStroke_Some_hit [OF this] obtain i where i: "i < length strokes"
      "stroke_id (strokes ! i) = stroke_id s" "hasSegmentWithin x y hitRadius (strokes ! i)"
      by blast
    from distinct_ids_eq [OF assms(1) i(1) assms(2) i(2)] have "strokes ! i = s" .
    with i(3) short_not_within [OF assms(3)] show False by simp
  qed
  then have "s \<in> set (eraseHitStroke x y strokes hitRadius)"
    using assms(2) by (auto simp: eraseHitStroke_def split: option.splits)
  with ne show ?thesis ..
qed

theorem single_point_stroke_never_hit_witness:
  "findStrokeAtPosition 5 5 [lowerLine, dotStroke] 10 \<noteq> Some (stroke_id dotStroke) \<and>
   dotStroke \<in> set (eraseHitStroke 5 5 [lowerLine, dotStroke] 10)"
  using single_point_stroke_never_hit [of "[lowerLine, dotStroke]" dotStroke 5 5 10]
  by (simp add: lowerLine_def dotStroke_def)

lemma filter_distinct_nth:
  "distinct (map f xs) \<Longrightarrow> i < length xs \<Longrightarrow>
   filter (\<lambda>z. f z \<noteq> f (xs ! i)) xs = take i xs @ drop (Suc i) xs"
proof (induction xs arbitrary: i)
  case Nil
  then show ?case by simp
next
  case (Cons a xs)
  show ?case
  proof (cases i)
    case 0
    from Cons.prems have "\<forall>z \<in> set xs. f z \<noteq> f a" by (auto simp: image_iff)
    then have "filter (\<lambda>z. f z \<noteq> f a) xs = xs" by (simp add: filter_id_conv)
    with 0 show ?thesis by simp
  next
    case (Suc j)
    with Cons.prems have j: "j < length xs" and d: "distinct (map f xs)" by auto
    from Cons.prems j have "f a \<noteq> f (xs ! j)" by (auto simp: image_iff)
    with Cons.IH [OF d j] Suc show ?thesis by simp
  qed
qed

subsection \<open>Stroke eraser\<close>

text \<open>
  C8. With the eraser in stroke mode, when the hit test finds a stroke (the identifier it
  returns passes the test \<^verbatim>\<open>if (hitId)\<close>) in a collection with distinct identifiers, the
  pointer-down and the pointer-move handler both delete exactly that stroke: the new
  collection is the old one without its element of that identifier, so it is shorter by
  one, the identifier is gone, and the other strokes are as they were, in the same order.
\<close>

theorem whole_stroke_erase_exact:
  assumes "activeTool st = Eraser" "eraserMode st = Stroke"
    and "distinct (map stroke_id (lines st))"
    and "findStrokeAtPosition px py (lines st) (eraserSize st / 2) = Some hitId"
    and "hitId \<noteq> []"
  shows "\<exists>st' i. handlePointerDown (Some (px, py)) now st = Some st' \<and>
           handlePointerMove (Some (px, py)) 1 st = Some st' \<and>
           i < length (lines st) \<and> stroke_id (lines st ! i) = hitId \<and>
           lines st' = take i (lines st) @ drop (Suc i) (lines st) \<and>
           length (lines st') + 1 = length (lines st) \<and>
           hitId \<notin> set (map stroke_id (lines st'))"
proof -
  let ?ls = "lines st"
  let ?res = "filter (\<lambda>line. stroke_id line \<noteq> hitId) ?ls"
  let ?st' = "st\<lparr>lines := ?res\<rparr>"
  from findStroke_Some_hit [OF assms(4)] obtain i where i: "i < length ?ls"
    "stroke_id (?ls ! i) = hitId" by blast
  have hit: "eraseHitStroke px py ?ls (eraserSize st / 2) = ?res"
    using assms(4,5) by (simp add: eraseHitStroke_def)
  have res: "?res = take i ?ls @ drop (Suc i) ?ls"
    using filter_distinct_nth [OF assms(3) i(1)] i(2) by simp
  have "handlePointerDown (Some (px, py)) now st = Some ?st'"
    using assms(1,2) hit by (simp add: handlePointerDown_def)
  moreover have "handlePointerMove (Some (px, py)) 1 st = Some ?st'"
    using assms(1,2) hit by (simp add: handlePointerMove_def)
  moreover have "lines ?st' = take i ?ls @ drop (Suc i) ?ls" using res by simp
  moreover have "length (lines ?st') + 1 = length ?ls" using res i(1) by simp
  moreover have "hitId \<notin> set (map stroke_id (lines ?st'))" by auto
  ultimately show ?thesis using i by blast
qed

lemma upperLine_found: "findStrokeAtPosition 5 0 [lowerLine, upperLine] 2 = Some ''b''"
  using upperLine_within by (simp add: findStroke_find upperLine_def)

lemma erasingBoard_hit:
  "findStrokeAtPosition 5 0 (lines erasingBoard) (eraserSize erasingBoard / 2) = Some ''b''"
  using upperLine_found by (simp add: erasingBoard_def)

theorem whole_stroke_erase_exact_witness:
  "handlePointerDown (Some (5, 0)) 0 erasingBoard = Some (erasingBoard\<lparr>lines := [lowerLine]\<rparr>) \<and>
   handlePointerMove (Some (5, 0)) 1 erasingBoard = Some (erasingBoard\<lparr>lines := [lowerLine]\<rparr>)"
proof -
  have a: "activeTool erasingBoard = Eraser" "eraserMode erasingBoard = Stroke"
    "distinct (map stroke_id (lines erasingBoard))" "''b'' \<noteq> []"
    by (simp_all add: erasingBoard_def lowerLine_def upperLine_def)
  from whole_stroke_erase_exact [OF a(1,2,3) erasingBoard_hit a(4), of 0]
  obtain st' i where r: "handlePointerDown (Some (5, 0)) 0 erasingBoard = Some st'"
    "handlePointerMove (Some (5, 0)) 1 erasingBoard = Some st'"
    "i < length (lines erasingBoard)" "stroke_id (lines erasingBoard ! i) = ''b''"
    "lines st' = take i (lines erasingBoard) @ drop (Suc i) (lines erasingBoard)"
    by blast
  from r(3,4) have "i = 1"
    by (cases i) (simp_all add: erasingBoard_def lowerLine_def upperLine_def)
  with r(5) have "lines st' = [lowerLine]" by (simp add: erasingBoard_def)
  moreover from r(1) a(1,2) have "st' = erasingBoard\<lparr>lines := lines st'\<rparr>"
    by (auto simp: handlePointerDown_def)
  ultimately have "st' = erasingBoard\<lparr>lines := [lowerLine]\<rparr>" by simp
  with r(1,2) show ?thesis by simp
qed

subsection \<open>Partial eraser: short strokes\<close>

lemma eraseStroke_short: "length (points s) < 4 \<Longrightarrow> eraseStroke x y r s res = Some (res @ [s])"
  by (simp add: eraseStroke_def)

text \<open>
  C6. A stroke with fewer than two points (fewer than four coordinates) comes out of the
  partial eraser as it went in, with its identifier and its points, whatever the centre
  and the radius of the circle, also when its point is inside the circle.
\<close>

theorem short_stroke_passes_through:
  "length (points s) < 4 \<Longrightarrow>
   eraseStroke x y r s res = Some (res @ [s]) \<and> eraseAtPosition x y [s] r = Some [s]"
  by (simp add: eraseAtPosition_def eraseStroke_def)

theorem short_stroke_passes_through_witness:
  "eraseStroke 5 5 10 dotStroke [lowerLine] = Some [lowerLine, dotStroke] \<and>
   eraseAtPosition 5 5 [dotStroke] 10 = Some [dotStroke] \<and>
   isPointInCircle 5 5 5 5 10"
  using short_stroke_passes_through [of dotStroke 5 5 10 "[lowerLine]"]
  by (simp add: dotStroke_def isPointInCircle_def)

subsection \<open>Partial eraser: geometry of the intersections\<close>

lemma quadratic_root:
  fixes a b C :: real
  assumes "a \<noteq> 0" "0 \<le> b * b - 4 * a * C"
    and "t = (- b - sqrt (b * b - 4 * a * C)) / (2 * a) \<or> t = (- b + sqrt (b * b - 4 * a * C)) / (2 * a)"
  shows "a * t\<^sup>2 + b * t + C = 0"
proof -
  define s where "s = sqrt (b * b - 4 * a * C)"
  have s2: "s * s = b * b - 4 * a * C"
    using assms(2) by (simp add: s_def)
  from assms(3) have "2 * a * t = - b - s \<or> 2 * a * t = - b + s"
    using assms(1) by (auto simp: s_def)
  then have "(2 * a * t + b) * (2 * a * t + b) = s * s" by auto
  then have "4 * a * (a * t\<^sup>2 + b * t + C) = 0"
    using s2 by (simp add: algebra_simps power2_eq_square)
  with assms(1) show ?thesis by simp
qed

lemma lerp_distSq:
  "distSq (lerp p1 p2 t) c - r * r =
     ((fst p2 - fst p1) * (fst p2 - fst p1) + (snd p2 - snd p1) * (snd p2 - snd p1)) * t\<^sup>2 +
     2 * ((fst p1 - fst c) * (fst p2 - fst p1) + (snd p1 - snd c) * (snd p2 - snd p1)) * t +
     ((fst p1 - fst c) * (fst p1 - fst c) + (snd p1 - snd c) * (snd p1 - snd c) - r * r)"
  by (simp add: distSq_def lerp_def power2_eq_square algebra_simps)

lemma intersections_shape:
  "\<exists>ts. sorted ts \<and> (\<forall>t \<in> set ts. 0 \<le> t \<and> t \<le> 1 \<and> distSq (lerp p1 p2 t) c = r * r) \<and>
     getSegmentCircleIntersections p1 p2 c r = map (lerp p1 p2) ts"
proof -
  define dx dy fx fy where "dx = fst p2 - fst p1" and "dy = snd p2 - snd p1"
    and "fx = fst p1 - fst c" and "fy = snd p1 - snd c"
  define a b C where "a = dx * dx + dy * dy" and "b = 2 * (fx * dx + fy * dy)"
    and "C = (fx * fx + fy * fy) - r * r"
  define t1 t2 where "t1 = (- b - sqrt (b * b - 4 * a * C)) / (2 * a)"
    and "t2 = (- b + sqrt (b * b - 4 * a * C)) / (2 * a)"
  define ts where "ts = (if t1 \<ge> 0 \<and> t1 \<le> 1 then [t1] else []) @ (if t2 \<ge> 0 \<and> t2 \<le> 1 then [t2] else [])"
  have a0: "0 \<le> a" by (simp add: a_def)
  show ?thesis
  proof (cases "0 \<le> b * b - 4 * a * C \<and> a \<noteq> 0")
    case True
    then have apos: "0 < a" using a0 by simp
    have "t1 \<le> t2"
      using apos True by (simp add: t1_def t2_def divide_le_cancel)
    then have "sorted ts" by (simp add: ts_def)
    moreover have "distSq (lerp p1 p2 t) c = r * r" if "t \<in> set ts" for t
    proof -
      from that have "t = t1 \<or> t = t2" by (auto simp: ts_def split: if_splits)
      then have "a * t\<^sup>2 + b * t + C = 0"
        using quadratic_root [of a b C t] True by (simp add: t1_def t2_def)
      then show ?thesis
        using lerp_distSq [of p1 p2 t c r]
        by (simp add: a_def b_def C_def dx_def dy_def fx_def fy_def)
    qed
    moreover have "\<forall>t \<in> set ts. 0 \<le> t \<and> t \<le> 1" by (auto simp: ts_def split: if_splits)
    moreover have "getSegmentCircleIntersections p1 p2 c r = map (lerp p1 p2) ts"
      using True
      by (simp add: getSegmentCircleIntersections_def Let_def ts_def t1_def t2_def
          a_def b_def C_def dx_def dy_def fx_def fy_def lerp_def)
    ultimately show ?thesis by blast
  next
    case False
    then have "getSegmentCircleIntersections p1 p2 c r = map (lerp p1 p2) []"
      by (auto simp: getSegmentCircleIntersections_def Let_def
          a_def b_def C_def dx_def dy_def fx_def fy_def)
    then show ?thesis by (intro exI [of _ "[]"]) simp
  qed
qed

lemma convex_below:
  fixes t A B a :: real
  assumes "0 \<le> t" "t \<le> 1" "A < 0" "B < 0" "0 \<le> a"
  shows "(1 - t) * A + t * B - a * t * (1 - t) < 0"
proof -
  have "(1 - t) * A + t * B < 0"
  proof (cases "t = 0")
    case True
    with assms show ?thesis by simp
  next
    case False
    with assms have "t * B < 0" by (simp add: mult_pos_neg)
    moreover from assms have "(1 - t) * A \<le> 0" by (simp add: mult_nonneg_nonpos)
    ultimately show ?thesis by linarith
  qed
  moreover have "0 \<le> a * t * (1 - t)" using assms by simp
  ultimately show ?thesis by linarith
qed

lemma lerp_distSq_convex:
  "distSq (lerp p1 p2 t) c - r * r =
     (1 - t) * (distSq p1 c - r * r) + t * (distSq p2 c - r * r)
     - ((fst p2 - fst p1) * (fst p2 - fst p1) + (snd p2 - snd p1) * (snd p2 - snd p1)) * t * (1 - t)"
  by (simp add: distSq_def lerp_def power2_eq_square algebra_simps)

lemma isPointInCircle_distSq: "isPointInCircle px py x y r \<longleftrightarrow> distSq (px, py) (x, y) < r * r"
  by (simp add: isPointInCircle_def distSq_def power2_eq_square)

lemma no_intersections_inside:
  assumes "isPointInCircle px py x y r" "isPointInCircle cx cy x y r"
  shows "getSegmentCircleIntersections (px, py) (cx, cy) (x, y) r = []"
proof -
  from intersections_shape [of "(px, py)" "(cx, cy)" "(x, y)" r] obtain ts where
    ts: "\<forall>t \<in> set ts. 0 \<le> t \<and> t \<le> 1 \<and> distSq (lerp (px, py) (cx, cy) t) (x, y) = r * r"
    and eq: "getSegmentCircleIntersections (px, py) (cx, cy) (x, y) r = map (lerp (px, py) (cx, cy)) ts"
    by blast
  have "ts = []"
  proof (rule ccontr)
    assume "ts \<noteq> []"
    then obtain t where "t \<in> set ts" by (cases ts) auto
    with ts have t: "0 \<le> t" "t \<le> 1" and on: "distSq (lerp (px, py) (cx, cy) t) (x, y) = r * r"
      by auto
    have "distSq (lerp (px, py) (cx, cy) t) (x, y) - r * r < 0"
      unfolding lerp_distSq_convex
      using assms t by (intro convex_below) (simp_all add: isPointInCircle_distSq)
    with on show False by simp
  qed
  with eq show ?thesis by simp
qed

subsection \<open>Partial eraser: strokes inside the circle\<close>

text \<open>
  In exact arithmetic a segment between two points strictly inside the circle has no
  intersection with it, and a stroke of such points leaves no fragment. The lemmas of this
  subsection are about real numbers only: in double precision the rounded roots of the
  quadratic can fall on \<open>0\<close> or \<open>1\<close>, and the corresponding property is stated with the
  double-precision properties below.
\<close>

lemma finishLine_empty: "currentLinePoints st = [] \<Longrightarrow> finishLine stroke st = st"
  by (simp add: finishLine_def)

lemma segmentStep_inside:
  assumes "isPointInCircle px py x y r" "isPointInCircle cx cy x y r" "currentLinePoints st = []"
  shows "segmentStep x y r stroke px py cx cy st = st"
  using assms by (simp add: segmentStep_def no_intersections_inside finishLine_empty)

lemma segmentLoop_inside:
  "isPointInCircle px py x y r \<Longrightarrow> allInside x y r rest \<Longrightarrow> even (length rest) \<Longrightarrow>
   currentLinePoints st = [] \<Longrightarrow> segmentLoop x y r stroke px py rest st = Some st"
proof (induction x y r stroke px py rest st rule: segmentLoop.induct)
  case (1 x y r stroke px py st)
  then show ?case by simp
next
  case (2 x y r stroke px py cx st)
  then show ?case by simp
next
  case (3 x y r stroke px py cx cy rest st)
  then show ?case by (simp add: segmentStep_inside)
qed

lemma eraseStroke_inside:
  assumes "4 \<le> length (points s)" "even (length (points s))" "allInside x y r (points s)"
  shows "eraseStroke x y r s res = Some res"
proof -
  from assms(1) obtain px py rest where pts: "points s = px # py # rest"
    by (cases "points s" rule: pointsOf.cases) auto
  with assms have "isPointInCircle px py x y r" "allInside x y r rest" "even (length rest)"
    by simp_all
  then have "segmentLoop x y r s px py rest
      \<lparr>result = res, currentLinePoints = [], segmentCount = 0\<rparr> =
      Some \<lparr>result = res, currentLinePoints = [], segmentCount = 0\<rparr>"
    by (intro segmentLoop_inside) simp_all
  then show ?thesis
    using assms(1) pts \<open>isPointInCircle px py x y r\<close>
    by (simp add: eraseStroke_def startLine_def finishLine_def)
qed

subsection \<open>Partial eraser: strokes outside the circle\<close>

text \<open>
  In exact arithmetic a segment strictly outside the circle has no intersection with it
  and both its end points fail the membership test, so that a stroke of such segments
  comes back whole, as its fragment number 0. Again the lemmas of this subsection are
  about real numbers only.
\<close>

lemma lerp_ends: "lerp p1 p2 0 = p1" "lerp p1 p2 1 = p2"
  by (simp_all add: lerp_def)

lemma segmentOutside_ends:
  assumes "segmentOutside (px, py) (cx, cy) (x, y) r"
  shows "\<not> isPointInCircle px py x y r" "\<not> isPointInCircle cx cy x y r"
proof -
  from assms have "distSq (lerp (px, py) (cx, cy) 0) (x, y) > r\<^sup>2"
    "distSq (lerp (px, py) (cx, cy) 1) (x, y) > r\<^sup>2"
    unfolding segmentOutside_def by simp_all
  then show "\<not> isPointInCircle px py x y r" "\<not> isPointInCircle cx cy x y r"
    by (simp_all add: lerp_ends isPointInCircle_distSq power2_eq_square)
qed

lemma no_intersections_outside:
  assumes "segmentOutside p1 p2 c r"
  shows "getSegmentCircleIntersections p1 p2 c r = []"
proof -
  from intersections_shape [of p1 p2 c r] obtain ts where
    ts: "\<forall>t \<in> set ts. 0 \<le> t \<and> t \<le> 1 \<and> distSq (lerp p1 p2 t) c = r * r"
    and eq: "getSegmentCircleIntersections p1 p2 c r = map (lerp p1 p2) ts"
    by blast
  have "ts = []"
  proof (rule ccontr)
    assume "ts \<noteq> []"
    then obtain t where "t \<in> set ts" by (cases ts) auto
    with ts have t: "0 \<le> t \<and> t \<le> 1" and on: "distSq (lerp p1 p2 t) c = r * r"
      by auto
    from assms t have "distSq (lerp p1 p2 t) c > r\<^sup>2"
      unfolding segmentOutside_def by blast
    with on show False by (simp add: power2_eq_square)
  qed
  with eq show ?thesis by simp
qed

lemma segmentStep_outside:
  assumes "segmentOutside (px, py) (cx, cy) (x, y) r"
  shows "segmentStep x y r stroke px py cx cy st = pushPoint cx cy st"
  using no_intersections_outside [OF assms] segmentOutside_ends(2) [OF assms]
  by (simp add: segmentStep_def)

lemma segmentLoop_outside:
  "segmentsOutside (x, y) r (px # py # rest) \<Longrightarrow> even (length rest) \<Longrightarrow>
   segmentLoop x y r stroke px py rest st =
     Some (st\<lparr>currentLinePoints := currentLinePoints st @ rest\<rparr>)"
proof (induction x y r stroke px py rest st rule: segmentLoop.induct)
  case (1 x y r stroke px py st)
  then show ?case by simp
next
  case (2 x y r stroke px py cx st)
  then show ?case by simp
next
  case (3 x y r stroke px py cx cy rest st)
  then show ?case by (simp add: segmentStep_outside pushPoint_def)
qed

lemma eraseStroke_outside:
  assumes "4 \<le> length (points s)" "even (length (points s))"
    "segmentsOutside (x, y) r (points s)"
  shows "eraseStroke x y r s res = Some (res @ [s\<lparr>stroke_id := stroke_id s @ ''-0''\<rparr>])"
proof -
  from assms(1) obtain px py cx cy rest where pts: "points s = px # py # cx # cy # rest"
    by (auto simp: numeral_eq_Suc Suc_le_length_iff)
  with assms(3) have "segmentOutside (px, py) (cx, cy) (x, y) r" by simp
  then have out: "\<not> isPointInCircle px py x y r" by (rule segmentOutside_ends(1))
  from pts assms(2) have ev: "even (length (cx # cy # rest))" by simp
  have loop: "segmentLoop x y r s px py (cx # cy # rest)
      \<lparr>result = res, currentLinePoints = [px, py], segmentCount = 0\<rparr> =
      Some \<lparr>result = res, currentLinePoints = points s, segmentCount = 0\<rparr>"
    using segmentLoop_outside [OF assms(3) [unfolded pts] ev] pts by simp
  have "s\<lparr>stroke_id := stroke_id s @ ''-0'', points := points s\<rparr> =
      s\<lparr>stroke_id := stroke_id s @ ''-0''\<rparr>" by simp
  then show ?thesis
    using assms(1) out loop pts
    by (simp add: eraseStroke_def startLine_def finishLine_def show_nat_0)
qed

lemma eraseStrokes_outside:
  assumes "\<forall>s \<in> set strokes. even (length (points s)) \<and> segmentsOutside (x, y) r (points s)"
  shows "eraseStrokes x y r strokes res =
     Some (res @ map (\<lambda>s. if length (points s) < 4 then s
                           else s\<lparr>stroke_id := stroke_id s @ ''-0''\<rparr>) strokes)"
  using assms
proof (induction strokes arbitrary: res)
  case Nil
  then show ?case by simp
next
  case (Cons s strokes)
  show ?case
  proof (cases "length (points s) < 4")
    case True
    with Cons show ?thesis by (simp add: eraseStroke_short)
  next
    case False
    then have "4 \<le> length (points s)" by simp
    from eraseStroke_outside [OF this, of x y r res] Cons.prems
    have "eraseStroke x y r s res = Some (res @ [s\<lparr>stroke_id := stroke_id s @ ''-0''\<rparr>])"
      by simp
    with Cons False show ?thesis by simp
  qed
qed

lemma lowerLine_outside: "segmentsOutside (5, 50) 10 (points lowerLine)"
proof -
  have "100 < (t * 10 - 5)\<^sup>2 + 2500" for t :: real
    using zero_le_power2 [of "t * 10 - 5"] by linarith
  then show ?thesis
    by (simp add: lowerLine_def segmentOutside_def lerp_def distSq_def)
qed

subsection \<open>Partial eraser: the fragments of a stroke\<close>

lemma digit_char_inj: "a < 10 \<Longrightarrow> b < 10 \<Longrightarrow> digit_char a = digit_char b \<Longrightarrow> a = b"
proof -
  assume a: "a < 10" and b: "b < 10" and e: "digit_char a = digit_char b"
  have d: "distinct ''0123456789''" by simp
  have "length ''0123456789'' = 10" by simp
  with a b e d show "a = b"
    unfolding digit_char_def by (metis nth_eq_iff_index_eq)
qed

lemma show_nat_nonempty: "show_nat n \<noteq> []"
  by (subst show_nat.simps) simp

lemma show_nat_inj: "show_nat m = show_nat n \<Longrightarrow> m = n"
proof (induction m arbitrary: n rule: show_nat.induct)
  case (1 m)
  show ?case
  proof (cases "m < 10")
    case m: True
    show ?thesis
    proof (cases "n < 10")
      case True
      with m "1.prems" show ?thesis
        by (simp add: show_nat.simps [of m] show_nat.simps [of n] digit_char_inj)
    next
      case False
      with m "1.prems" show_nat_nonempty [of "n div 10"] show ?thesis
        by (simp add: show_nat.simps [of m] show_nat.simps [of n])
    qed
  next
    case m: False
    show ?thesis
    proof (cases "n < 10")
      case True
      with m "1.prems" show_nat_nonempty [of "m div 10"] show ?thesis
        by (simp add: show_nat.simps [of m] show_nat.simps [of n])
    next
      case False
      with m "1.prems" have e: "show_nat (m div 10) = show_nat (n div 10)"
        "digit_char (m mod 10) = digit_char (n mod 10)"
        by (simp_all add: show_nat.simps [of m] show_nat.simps [of n])
      from "1.IH" [OF m e(1)] have "m div 10 = n div 10" .
      moreover from e(2) have "m mod 10 = n mod 10" by (intro digit_char_inj) simp_all
      ultimately show ?thesis by (metis div_mult_mod_eq)
    qed
  qed
qed

lemma pointsOf_append:
  "even (length xs) \<Longrightarrow> pointsOf (xs @ ys) = pointsOf xs @ pointsOf ys"
  by (induction xs rule: pointsOf.induct) simp_all

lemma length_pointsOf: "length (pointsOf xs) = length xs div 2"
  by (induction xs rule: pointsOf.induct) simp_all

lemma eraseInv_push:
  assumes "eraseInv V s res b st" "onPolyline V u (px, py)" "b \<le> u"
  shows "eraseInv V s res u (pushPoint px py st)"
proof -
  from assms(1) obtain us where us: "sorted us" "\<forall>w \<in> set us. w \<le> b"
    "list_all2 (onPolyline V) us (pointsOf (currentLinePoints st))"
    and ev: "even (length (currentLinePoints st))"
    unfolding eraseInv_def by blast
  have "sorted (us @ [u])" using us(1,2) assms(3) by (auto simp: sorted_append)
  moreover have "\<forall>w \<in> set (us @ [u]). w \<le> u" using us(2) assms(3) by auto
  moreover have "list_all2 (onPolyline V) (us @ [u])
      (pointsOf (currentLinePoints st @ [px, py]))"
    using us(3) assms(2) ev by (simp add: pointsOf_append list_all2_appendI)
  ultimately have "\<exists>us. sorted us \<and> (\<forall>w \<in> set us. w \<le> u) \<and>
      list_all2 (onPolyline V) us (pointsOf (currentLinePoints st @ [px, py]))"
    by blast
  with assms(1) ev show ?thesis
    unfolding eraseInv_def pushPoint_def by simp
qed

lemma eraseInv_mono:
  assumes "eraseInv V s res b st" "b \<le> b'"
  shows "eraseInv V s res b' st"
proof -
  from assms(1) obtain us where us: "sorted us" "\<forall>w \<in> set us. w \<le> b"
    "list_all2 (onPolyline V) us (pointsOf (currentLinePoints st))"
    unfolding eraseInv_def by blast
  from us(2) assms(2) have "\<forall>w \<in> set us. w \<le> b'" by auto
  with us(1,3) have "\<exists>us. sorted us \<and> (\<forall>w \<in> set us. w \<le> b') \<and>
      list_all2 (onPolyline V) us (pointsOf (currentLinePoints st))" by blast
  with assms(1) show ?thesis unfolding eraseInv_def by simp
qed

lemma eraseInv_finishLine:
  assumes "eraseInv V s res b st"
  shows "eraseInv V s res b (finishLine s st)"
proof -
  from assms obtain frs where frs: "result st = res @ frs" "length frs = segmentCount st"
    "\<forall>i<length frs. fragmentOK V s i (frs ! i)"
    and ev: "even (length (currentLinePoints st))"
    unfolding eraseInv_def by blast
  from assms obtain us where us: "sorted us"
    "list_all2 (onPolyline V) us (pointsOf (currentLinePoints st))"
    unfolding eraseInv_def by blast
  have empty: "\<exists>us::real list. sorted us \<and> (\<forall>w \<in> set us. w \<le> b) \<and>
      list_all2 (onPolyline V) us (pointsOf [])"
    by (intro exI [of _ "[]"]) simp
  show ?thesis
  proof (cases "4 \<le> length (currentLinePoints st)")
    case True
    let ?f = "s\<lparr>stroke_id := stroke_id s @ ''-'' @ show_nat (segmentCount st),
      points := currentLinePoints st\<rparr>"
    have f: "fragmentOK V s (length frs) ?f"
      using True ev us frs(2) unfolding fragmentOK_def inPolylineOrder_def by auto
    have "\<forall>i<length (frs @ [?f]). fragmentOK V s i ((frs @ [?f]) ! i)"
      using frs(3) f by (auto simp: nth_append less_Suc_eq)
    moreover have "result (finishLine s st) = res @ (frs @ [?f])"
      using True frs(1) by (simp add: finishLine_def)
    moreover have "length (frs @ [?f]) = segmentCount (finishLine s st)"
      using True frs(2) by (simp add: finishLine_def)
    ultimately have "\<exists>frs. result (finishLine s st) = res @ frs \<and>
        length frs = segmentCount (finishLine s st) \<and>
        (\<forall>i<length frs. fragmentOK V s i (frs ! i))" by blast
    moreover have "currentLinePoints (finishLine s st) = []"
      by (simp add: finishLine_def)
    ultimately show ?thesis using empty unfolding eraseInv_def by simp
  next
    case False
    then have "finishLine s st = st\<lparr>currentLinePoints := []\<rparr>" by (simp add: finishLine_def)
    with frs empty show ?thesis unfolding eraseInv_def by auto
  qed
qed

lemma eraseInv_handleIntersections:
  "eraseInv V s res b st \<Longrightarrow> sorted ws \<Longrightarrow> \<forall>w \<in> set ws. b \<le> w \<and> w \<le> b' \<Longrightarrow> b \<le> b' \<Longrightarrow>
   list_all2 (onPolyline V) ws ps \<Longrightarrow>
   eraseInv V s res b' (handleIntersections s ps st)"
proof (induction ps arbitrary: ws b st)
  case Nil
  then show ?case by (simp add: eraseInv_mono)
next
  case (Cons p ps)
  from Cons.prems(5) obtain w ws' where ws: "ws = w # ws'" "onPolyline V w p"
    "list_all2 (onPolyline V) ws' ps"
    by (auto simp: list_all2_Cons2)
  from Cons.prems(2,3) ws(1) have w: "b \<le> w" "w \<le> b'" "sorted ws'"
    "\<forall>v \<in> set ws'. w \<le> v \<and> v \<le> b'" by auto
  have pushed: "eraseInv V s res w (pushPoint (fst p) (snd p) st)"
    using eraseInv_push [OF Cons.prems(1) _ w(1), of "fst p" "snd p"] ws(2) by simp
  let ?st1 = "if length (currentLinePoints st) > 0
        then finishLine s (pushPoint (fst p) (snd p) st)
        else pushPoint (fst p) (snd p) st"
  have "eraseInv V s res w ?st1"
    using pushed by (simp add: eraseInv_finishLine)
  from Cons.IH [OF this w(3,4,2) ws(3)] show ?case by simp
qed

lemma distSq_lerp_start:
  "distSq p1 (lerp p1 p2 t) =
     ((fst p2 - fst p1) * (fst p2 - fst p1) + (snd p2 - snd p1) * (snd p2 - snd p1)) * t\<^sup>2"
  by (simp add: distSq_def lerp_def power2_eq_square algebra_simps)

lemma sort_intersections_noop:
  assumes "sorted ts" "\<forall>t \<in> set ts. 0 \<le> t"
  shows "sort_key (distSq p1) (map (lerp p1 p2) ts) = map (lerp p1 p2) ts"
proof (rule sort_key_id_if_sorted)
  let ?a = "(fst p2 - fst p1) * (fst p2 - fst p1) + (snd p2 - snd p1) * (snd p2 - snd p1)"
  have a: "0 \<le> ?a" by simp
  have "sorted_wrt (\<lambda>t t'. ?a * t\<^sup>2 \<le> ?a * t'\<^sup>2) ts"
  proof (rule sorted_wrt_mono_rel [of ts "(\<le>)"])
    fix t t' assume "t \<in> set ts" "t' \<in> set ts" "t \<le> t'"
    with assms(2) have "t\<^sup>2 \<le> t'\<^sup>2" by (simp add: power_mono)
    with a show "?a * t\<^sup>2 \<le> ?a * t'\<^sup>2" by (rule mult_left_mono [rotated])
  next
    show "sorted_wrt (\<le>) ts" using assms(1) by simp
  qed
  then show "sorted (map (distSq p1) (map (lerp p1 p2) ts))"
    by (simp add: sorted_map o_def distSq_lerp_start)
qed

lemma onPolyline_vertex:
  assumes "Suc k < length V"
  shows "onPolyline V (real k) (V ! k)" "onPolyline V (real (Suc k)) (V ! Suc k)"
proof -
  show "onPolyline V (real k) (V ! k)"
    unfolding onPolyline_def using assms
    by (intro exI [of _ k] exI [of _ 0]) (simp add: lerp_ends)
  show "onPolyline V (real (Suc k)) (V ! Suc k)"
    unfolding onPolyline_def using assms
    by (intro exI [of _ k] exI [of _ 1]) (simp add: lerp_ends)
qed

lemma eraseInv_segmentStep:
  assumes k: "Suc k < length V" "V ! k = (px, py)" "V ! Suc k = (cx, cy)"
    and inv: "eraseInv V s res (real k) st"
  shows "eraseInv V s res (real (Suc k)) (segmentStep x y r s px py cx cy st)"
proof -
  let ?p1 = "(px, py)" and ?p2 = "(cx, cy)"
  from intersections_shape [of ?p1 ?p2 "(x, y)" r] obtain ts where
    ts: "sorted ts" "\<forall>t \<in> set ts. 0 \<le> t \<and> t \<le> 1"
    and eq: "getSegmentCircleIntersections ?p1 ?p2 (x, y) r = map (lerp ?p1 ?p2) ts"
    by blast
  have srt: "sort_key (distSq ?p1) (map (lerp ?p1 ?p2) ts) = map (lerp ?p1 ?p2) ts"
    using ts by (intro sort_intersections_noop) auto
  let ?ws = "map (\<lambda>t. real k + t) ts"
  have ws1: "sorted ?ws"
    using ts(1) by (simp add: sorted_map)
  have ws2: "\<forall>w \<in> set ?ws. real k \<le> w \<and> w \<le> real (Suc k)"
    using ts(2) by auto
  have ws3: "list_all2 (onPolyline V) ?ws (map (lerp ?p1 ?p2) ts)"
    unfolding list_all2_map1 list_all2_map2
  proof (rule list_all2_same [THEN iffD2], rule ballI)
    fix t assume "t \<in> set ts"
    with ts(2) have "0 \<le> t" "t \<le> 1" by auto
    with k show "onPolyline V (real k + t) (lerp ?p1 ?p2 t)"
      unfolding onPolyline_def by (intro exI [of _ k] exI [of _ t]) simp
  qed
  have le: "real k \<le> real (Suc k)" by simp
  have endp: "onPolyline V (real (Suc k)) (cx, cy)"
    using onPolyline_vertex(2) [OF k(1)] k(3) by simp
  show ?thesis
  proof (cases "ts = []")
    case True
    then have none: "getSegmentCircleIntersections ?p1 ?p2 (x, y) r = []" using eq by simp
    show ?thesis
    proof (cases "isPointInCircle cx cy x y r")
      case True
      with none have "segmentStep x y r s px py cx cy st = finishLine s st"
        by (simp add: segmentStep_def)
      with eraseInv_finishLine [OF eraseInv_mono [OF inv le]] show ?thesis by simp
    next
      case False
      with none have "segmentStep x y r s px py cx cy st = pushPoint cx cy st"
        by (simp add: segmentStep_def)
      with eraseInv_push [OF inv endp le] show ?thesis by simp
    qed
  next
    case False
    let ?st1 = "handleIntersections s (map (lerp ?p1 ?p2) ts) st"
    have st1: "eraseInv V s res (real (Suc k)) ?st1"
      using eraseInv_handleIntersections [OF inv ws1 ws2 le ws3] .
    from False have step: "segmentStep x y r s px py cx cy st =
        (if \<not> isPointInCircle cx cy x y r then pushPoint cx cy ?st1 else ?st1)"
      by (simp add: segmentStep_def eq srt Let_def)
    show ?thesis
      unfolding step using st1 eraseInv_push [OF st1 endp order_refl] by simp
  qed
qed

lemma eraseInv_segmentLoop:
  "V = pre @ (px, py) # pointsOf rest \<Longrightarrow> even (length rest) \<Longrightarrow>
   eraseInv V s res (real (length pre)) st \<Longrightarrow>
   \<exists>st'. segmentLoop x y r s px py rest st = Some st' \<and>
     eraseInv V s res (real (length V - 1)) st'"
proof (induction x y r s px py rest st arbitrary: pre rule: segmentLoop.induct)
  case (1 x y r s px py st)
  then show ?case by simp
next
  case (2 x y r s px py cx st)
  then show ?case by simp
next
  case (3 x y r s px py cx cy rest st)
  let ?k = "length pre"
  from "3.prems"(1) have V: "V = (pre @ [(px, py)]) @ (cx, cy) # pointsOf rest" by simp
  have k: "Suc ?k < length V" "V ! ?k = (px, py)" "V ! Suc ?k = (cx, cy)"
    using "3.prems"(1) by (simp_all add: nth_append)
  from eraseInv_segmentStep [OF k "3.prems"(3), of x y r]
  have "eraseInv V s res (real (length (pre @ [(px, py)])))
      (segmentStep x y r s px py cx cy st)" by simp
  from "3.IH" [OF V _ this] "3.prems"(2) show ?case by simp
qed

lemma eraseInv_start:
  assumes "2 \<le> length V" "V ! 0 = (px, py)"
  shows "eraseInv V s res 0
     \<lparr>result = res, currentLinePoints = startLine x y r px py, segmentCount = 0\<rparr>"
proof -
  have "onPolyline V (real 0) (V ! 0)"
    using assms(1) by (intro onPolyline_vertex(1)) simp
  then have on: "onPolyline V 0 (px, py)" using assms(2) by simp
  have "\<exists>us. sorted us \<and> (\<forall>u \<in> set us. u \<le> 0) \<and>
      list_all2 (onPolyline V) us (pointsOf (startLine x y r px py))"
  proof (cases "isPointInCircle px py x y r")
    case True
    then show ?thesis by (intro exI [of _ "[]"]) (simp add: startLine_def)
  next
    case False
    with on show ?thesis by (intro exI [of _ "[0]"]) (simp add: startLine_def)
  qed
  moreover have "even (length (startLine x y r px py))" by (simp add: startLine_def)
  ultimately show ?thesis unfolding eraseInv_def by simp
qed

lemma eraseStroke_fragments:
  assumes "4 \<le> length (points s)" "even (length (points s))"
  shows "\<exists>frs. eraseStroke x y r s res = Some (res @ frs) \<and>
           (\<forall>i<length frs. fragmentOK (pointsOf (points s)) s i (frs ! i))"
proof -
  let ?V = "pointsOf (points s)"
  from assms(1) obtain px py rest where pts: "points s = px # py # rest"
    by (auto simp: numeral_eq_Suc Suc_le_length_iff)
  with assms have rest: "even (length rest)" "2 \<le> length rest" by simp_all
  have V: "?V = [] @ (px, py) # pointsOf rest" using pts by simp
  have "2 \<le> length ?V" using assms(1) by (simp add: length_pointsOf)
  moreover have "?V ! 0 = (px, py)" using pts by simp
  ultimately have "eraseInv ?V s res (real (length ([]::xy list)))
     \<lparr>result = res, currentLinePoints = startLine x y r px py, segmentCount = 0\<rparr>"
    using eraseInv_start [of ?V px py s res x y r] by simp
  from eraseInv_segmentLoop [OF V rest(1) this, of x y r] obtain st' where
    st': "segmentLoop x y r s px py rest
       \<lparr>result = res, currentLinePoints = startLine x y r px py, segmentCount = 0\<rparr> = Some st'"
    "eraseInv ?V s res (real (length ?V - 1)) st'"
    by blast
  from eraseInv_finishLine [OF st'(2)] obtain frs where
    "result (finishLine s st') = res @ frs"
    "\<forall>i<length frs. fragmentOK ?V s i (frs ! i)"
    unfolding eraseInv_def by blast
  moreover have "eraseStroke x y r s res = Some (result (finishLine s st'))"
    using assms(1) pts st'(1) by (simp add: eraseStroke_def)
  ultimately show ?thesis by simp
qed

lemma distinct_fragment_ids:
  assumes "\<forall>i<length frs. stroke_id (frs ! i) = sid @ ''-'' @ show_nat i"
  shows "distinct (map stroke_id frs)"
  unfolding distinct_conv_nth
proof (intro allI impI)
  fix i j
  assume ij: "i < length (map stroke_id frs)" "j < length (map stroke_id frs)" "i \<noteq> j"
  show "map stroke_id frs ! i \<noteq> map stroke_id frs ! j"
  proof
    assume "map stroke_id frs ! i = map stroke_id frs ! j"
    with ij assms have "sid @ ''-'' @ show_nat i = sid @ ''-'' @ show_nat j" by simp
    then have "i = j" by (simp add: show_nat_inj)
    with ij(3) show False by simp
  qed
qed




subsection \<open>Partial eraser: identifiers within one call\<close>

text \<open>
  The decimal numeral of the counter has no \<open>-\<close>, so the identifier of a fragment tells
  the identifier of its stroke. Hence, when the strokes of the collection have distinct
  identifiers and two points or more each, all the strokes that one call of
  \<open>eraseAtPosition\<close> returns have distinct identifiers.
\<close>

lemma digit_char_digit: "d < 10 \<Longrightarrow> digit_char d \<in> set ''0123456789''"
  unfolding digit_char_def by (rule nth_mem) simp

lemma show_nat_digits: "set (show_nat n) \<subseteq> set ''0123456789''"
proof (induction n rule: show_nat.induct)
  case (1 n)
  show ?case
  proof (cases "n < 10")
    case True
    then show ?thesis
      using digit_char_digit [of n] by (subst show_nat.simps) simp
  next
    case False
    have "n mod 10 < 10" by simp
    from digit_char_digit [OF this] "1.IH" [OF False] False show ?thesis
      by (subst show_nat.simps) simp
  qed
qed

lemma show_nat_no_dash: "CHR ''-'' \<notin> set (show_nat n)"
  using show_nat_digits [of n] by auto

lemma append_dash_inj:
  "CHR ''-'' \<notin> set u \<Longrightarrow> CHR ''-'' \<notin> set v \<Longrightarrow> a @ ''-'' @ u = b @ ''-'' @ v \<Longrightarrow> a = b \<and> u = v"
proof (induction a arbitrary: b)
  case Nil
  then show ?case by (cases b) auto
next
  case (Cons c a)
  show ?case
  proof (cases b)
    case Nil
    with Cons.prems show ?thesis by auto
  next
    case (Cons c' b')
    with Cons.prems Cons.IH [of b'] show ?thesis by simp
  qed
qed

lemma fragment_id_inj:
  "a @ ''-'' @ show_nat i = b @ ''-'' @ show_nat j \<Longrightarrow> a = b"
  using append_dash_inj [OF show_nat_no_dash show_nat_no_dash] by blast

lemma eraseStrokes_distinct_ids:
  "\<forall>s \<in> set strokes. 4 \<le> length (points s) \<and> even (length (points s)) \<Longrightarrow>
   distinct (map stroke_id strokes) \<Longrightarrow> distinct (map stroke_id res) \<Longrightarrow>
   \<forall>f \<in> set res. \<exists>a i. a \<notin> stroke_id ` set strokes \<and> stroke_id f = a @ ''-'' @ show_nat i \<Longrightarrow>
   \<exists>out. eraseStrokes x y r strokes res = Some out \<and> distinct (map stroke_id out)"
proof (induction strokes arbitrary: res)
  case Nil
  then show ?case by simp
next
  case (Cons s strokes)
  from Cons.prems(1) have s: "4 \<le> length (points s)" "even (length (points s))" by simp_all
  from eraseStroke_fragments [OF s, of x y r res] obtain frs where
    frs: "eraseStroke x y r s res = Some (res @ frs)"
    "\<forall>i<length frs. fragmentOK (pointsOf (points s)) s i (frs ! i)"
    by blast
  from frs(2) have ids: "\<forall>i<length frs. stroke_id (frs ! i) = stroke_id s @ ''-'' @ show_nat i"
    unfolding fragmentOK_def by blast
  then have d: "distinct (map stroke_id frs)" by (rule distinct_fragment_ids)
  have disj: "stroke_id ` set res \<inter> stroke_id ` set frs = {}"
  proof (rule ccontr)
    assume "stroke_id ` set res \<inter> stroke_id ` set frs \<noteq> {}"
    then obtain f g where fg: "f \<in> set res" "g \<in> set frs" "stroke_id f = stroke_id g" by auto
    from fg(1) Cons.prems(4) obtain a i where a: "a \<noteq> stroke_id s"
      "stroke_id f = a @ ''-'' @ show_nat i" by fastforce
    from fg(2) ids obtain j where "stroke_id g = stroke_id s @ ''-'' @ show_nat j"
      by (auto simp: in_set_conv_nth)
    with a(2) fg(3) have "a = stroke_id s" using fragment_id_inj by metis
    with a(1) show False by simp
  qed
  have d': "distinct (map stroke_id (res @ frs))"
    using Cons.prems(3) d disj by simp
  have fresh: "\<forall>f \<in> set (res @ frs).
      \<exists>a i. a \<notin> stroke_id ` set strokes \<and> stroke_id f = a @ ''-'' @ show_nat i"
  proof
    fix f assume "f \<in> set (res @ frs)"
    then consider "f \<in> set res" | "f \<in> set frs" by auto
    then show "\<exists>a i. a \<notin> stroke_id ` set strokes \<and> stroke_id f = a @ ''-'' @ show_nat i"
    proof cases
      case 1
      with Cons.prems(4) show ?thesis by fastforce
    next
      case 2
      with ids obtain j where "stroke_id f = stroke_id s @ ''-'' @ show_nat j"
        by (auto simp: in_set_conv_nth)
      moreover from Cons.prems(2) have "stroke_id s \<notin> stroke_id ` set strokes" by simp
      ultimately show ?thesis by blast
    qed
  qed
  from Cons.prems(1,2) have "\<forall>s \<in> set strokes. 4 \<le> length (points s) \<and> even (length (points s))"
    "distinct (map stroke_id strokes)" by simp_all
  from Cons.IH [OF this d' fresh] frs(1) show ?case by simp
qed

lemma eraseAtPosition_distinct_ids:
  assumes "\<forall>s \<in> set strokes. 4 \<le> length (points s) \<and> even (length (points s))"
    and "distinct (map stroke_id strokes)"
  shows "\<exists>out. eraseAtPosition x y strokes r = Some out \<and> distinct (map stroke_id out)"
  using eraseStrokes_distinct_ids [OF assms, of "[]" x y r] by (simp add: eraseAtPosition_def)

subsection \<open>The clamped distance is the distance to the segment\<close>

text \<open>
  \<open>pointToSegmentDistance\<close> is the distance from the query point to the point of the segment
  at the clamped parameter, and no point of the segment is nearer. So a segment whose
  clamped distance from the centre exceeds the radius is entirely strictly outside the
  circle.
\<close>

lemma pointToSegmentDistance_lerp:
  "pointToSegmentDistance px py x1 y1 x2 y2 =
     sqrt (distSq (px, py) (lerp (x1, y1) (x2, y2)
       (max 0 (min 1 (((px - x1) * (x2 - x1) + (py - y1) * (y2 - y1)) /
          ((x2 - x1) * (x2 - x1) + (y2 - y1) * (y2 - y1)))))))"
proof (cases "(x2 - x1) * (x2 - x1) + (y2 - y1) * (y2 - y1) = 0")
  case True
  then have "x2 - x1 = 0" "y2 - y1 = 0"
    by (simp_all add: sum_squares_eq_zero_iff)
  then show ?thesis
    by (simp add: pointToSegmentDistance_def distSq_def lerp_def)
next
  case False
  then show ?thesis
    by (simp add: pointToSegmentDistance_def distSq_def lerp_def Let_def)
qed

lemma clamp_nearest:
  fixes t t0 :: real
  assumes "0 \<le> t" "t \<le> 1"
  shows "(max 0 (min 1 t0) - t0)\<^sup>2 \<le> (t - t0)\<^sup>2"
proof -
  have "\<bar>max 0 (min 1 t0) - t0\<bar> \<le> \<bar>t - t0\<bar>" using assms by (auto simp: max_def min_def)
  then show ?thesis by (simp add: abs_le_square_iff)
qed

lemma distSq_lerp_square:
  "distSq (px, py) (lerp (x1, y1) (x2, y2) t) =
     ((x2 - x1) * (x2 - x1) + (y2 - y1) * (y2 - y1)) * t\<^sup>2
     - 2 * ((px - x1) * (x2 - x1) + (py - y1) * (y2 - y1)) * t
     + ((px - x1)\<^sup>2 + (py - y1)\<^sup>2)"
  by (simp add: distSq_def lerp_def power2_eq_square algebra_simps)

lemma pointToSegmentDistance_least:
  assumes "0 \<le> t" "t \<le> 1"
  shows "pointToSegmentDistance px py x1 y1 x2 y2 \<le> sqrt (distSq (px, py) (lerp (x1, y1) (x2, y2) t))"
proof -
  define L where "L = (x2 - x1) * (x2 - x1) + (y2 - y1) * (y2 - y1)"
  define D where "D = (px - x1) * (x2 - x1) + (py - y1) * (y2 - y1)"
  define W where "W = (px - x1)\<^sup>2 + (py - y1)\<^sup>2"
  define c where "c = max 0 (min 1 (D / L))"
  have f: "distSq (px, py) (lerp (x1, y1) (x2, y2) u) = L * u\<^sup>2 - 2 * D * u + W" for u
    unfolding L_def D_def W_def by (rule distSq_lerp_square)
  have "L * c\<^sup>2 - 2 * D * c + W \<le> L * t\<^sup>2 - 2 * D * t + W"
  proof (cases "L = 0")
    case True
    then have "x2 - x1 = 0" "y2 - y1 = 0"
      unfolding L_def by (simp_all add: sum_squares_eq_zero_iff)
    then have "D = 0" by (simp add: D_def)
    with True show ?thesis by simp
  next
    case False
    have "0 \<le> L" by (simp add: L_def)
    with False have Lpos: "0 < L" by simp
    have sq: "L * u\<^sup>2 - 2 * D * u = L * (u - D / L)\<^sup>2 - D\<^sup>2 / L" for u
      using False by (simp add: power2_eq_square field_simps)
    from clamp_nearest [OF assms, of "D / L"] have "(c - D / L)\<^sup>2 \<le> (t - D / L)\<^sup>2"
      by (simp add: c_def)
    with Lpos have "L * (c - D / L)\<^sup>2 \<le> L * (t - D / L)\<^sup>2" by simp
    then show ?thesis by (simp add: sq)
  qed
  then have "distSq (px, py) (lerp (x1, y1) (x2, y2) c) \<le> distSq (px, py) (lerp (x1, y1) (x2, y2) t)"
    by (simp add: f)
  then show ?thesis
    unfolding pointToSegmentDistance_lerp by (simp add: c_def L_def D_def)
qed

lemma distSq_commute: "distSq p q = distSq q p"
  by (simp add: distSq_def power2_commute)

lemma segmentOutside_if_far:
  assumes "\<bar>r\<bar> < pointToSegmentDistance x y x1 y1 x2 y2"
  shows "segmentOutside (x1, y1) (x2, y2) (x, y) r"
  unfolding segmentOutside_def
proof (intro allI impI)
  fix t :: real
  assume t: "0 \<le> t \<and> t \<le> 1"
  let ?d = "distSq (lerp (x1, y1) (x2, y2) t) (x, y)"
  have "0 \<le> ?d" by (simp add: distSq_def)
  from t have "pointToSegmentDistance x y x1 y1 x2 y2 \<le> sqrt ?d"
    using pointToSegmentDistance_least [of t x y x1 y1 x2 y2] by (simp add: distSq_commute)
  with assms have "\<bar>r\<bar> < sqrt ?d" by simp
  then have "\<bar>r\<bar>\<^sup>2 < (sqrt ?d)\<^sup>2"
    by (intro power_strict_mono) simp_all
  with \<open>0 \<le> ?d\<close> show "r\<^sup>2 < ?d" by simp
qed

section \<open>Properties on double-precision numbers\<close>

subsection \<open>Rounding a given number\<close>

lemma ulp_exp_eq:
  assumes "2 powi e \<le> \<bar>x\<bar>" "\<bar>x\<bar> < 2 powi (e + 1)"
  shows "ulp_exp x = max e (- 1022) - 52"
proof -
  have pos: "0 < \<bar>x\<bar>"
    using assms(1) by (smt (verit) zero_less_power_int)
  have a: "2 powr real_of_int e \<le> \<bar>x\<bar>"
    using assms(1) by (simp add: powr_real_of_int')
  have "2 powr real_of_int (e + 1) = (2::real) powi (e + 1)"
    by (rule powr_real_of_int') simp_all
  with assms(2) have b: "\<bar>x\<bar> < 2 powr (real_of_int e + 1)" by simp
  have "\<lfloor>log 2 \<bar>x\<bar>\<rfloor> = e"
    using a b pos by (subst floor_log_eq_powr_iff) simp_all
  then show ?thesis by (simp add: ulp_exp_def)
qed

lemma round_even_eq:
  assumes "\<bar>z - of_int n\<bar> < 1 / 2"
  shows "round_even z = n"
proof (cases "of_int n \<le> z")
  case True
  with assms have "\<lfloor>z\<rfloor> = n" by (intro floor_unique) auto
  with assms True show ?thesis by (simp add: round_even_def)
next
  case False
  with assms have f: "\<lfloor>z\<rfloor> = n - 1" by (intro floor_unique) auto
  from False assms have "z - of_int (n - 1) > 1 / 2" by simp
  with f show ?thesis by (simp add: round_even_def)
qed

text \<open>
  The number \<open>x\<close> of the binade \<open>e\<close> rounds to the multiple \<open>n\<close> of the spacing \<open>2 powi q\<close>
  when it is nearer to it than half the spacing.
\<close>

lemma rnd_eqI:
  assumes e: "2 powi e \<le> \<bar>x\<bar>" "\<bar>x\<bar> < 2 powi (e + 1)"
    and q: "q = max e (- 1022) - 52"
    and n: "\<bar>x - of_int n * 2 powi q\<bar> < 2 powi q / 2"
    and y: "\<bar>of_int n * 2 powi q\<bar> < (2::real) ^ 1024"
  shows "rnd x = Num (of_int n * 2 powi q)"
proof -
  have x0: "x \<noteq> 0" using e(1) by (smt (verit) zero_less_power_int)
  have uq: "ulp_exp x = q" using ulp_exp_eq [OF e] q by simp
  have p: "(0::real) < 2 powi q" by (simp add: zero_less_power_int)
  have "\<bar>x / 2 powi q - of_int n\<bar> = \<bar>x - of_int n * 2 powi q\<bar> / 2 powi q"
    using p by (simp add: field_simps abs_divide)
  also have "\<dots> < (2 powi q / 2) / 2 powi q"
    using n p by (simp add: divide_strict_right_mono)
  also have "\<dots> = 1 / 2" using p by simp
  finally have "round_even (x / 2 powi q) = n" by (rule round_even_eq)
  moreover have "\<not> \<bar>real_of_int n * 2 powi q\<bar> \<ge> 2 ^ 1024" using y by simp
  ultimately show ?thesis using x0 uq unfolding rnd_def Let_def by (simp only: if_False)
qed

text \<open>At a tie, \<open>x\<close> rounds to the even one of its two neighbours.\<close>

lemma round_even_tie:
  "round_even (of_int m + 1 / 2) = (if even m then m else m + 1)"
proof -
  have "\<lfloor>of_int m + (1 / 2 :: real)\<rfloor> = m" by (intro floor_unique) auto
  then show ?thesis by (simp add: round_even_def)
qed

lemma rnd_tie_eqI:
  assumes e: "2 powi e \<le> \<bar>x\<bar>" "\<bar>x\<bar> < 2 powi (e + 1)"
    and q: "q = max e (- 1022) - 52"
    and m: "x = (of_int m + 1 / 2) * 2 powi q"
    and n: "n = (if even m then m else m + 1)"
    and y: "\<bar>of_int n * 2 powi q\<bar> < (2::real) ^ 1024"
  shows "rnd x = Num (of_int n * 2 powi q)"
proof -
  have x0: "x \<noteq> 0" using e(1) by (smt (verit) zero_less_power_int)
  have uq: "ulp_exp x = q" using ulp_exp_eq [OF e] q by simp
  have p: "(0::real) < 2 powi q" by (simp add: zero_less_power_int)
  have "x / 2 powi q = of_int m + 1 / 2" using m p by simp
  then have "round_even (x / 2 powi q) = n" using n by (simp only: round_even_tie)
  moreover have "\<not> \<bar>real_of_int n * 2 powi q\<bar> \<ge> 2 ^ 1024" using y by simp
  ultimately show ?thesis using x0 uq unfolding rnd_def Let_def by (simp only: if_False)
qed

lemma rnd_tie_evenI:
  assumes "2 powi e \<le> \<bar>x\<bar>" "\<bar>x\<bar> < 2 powi (e + 1)" "q = max e (- 1022) - 52"
    and "x = (of_int (2 * k) + 1 / 2) * 2 powi q"
    and "\<bar>of_int (2 * k) * 2 powi q\<bar> < (2::real) ^ 1024"
  shows "rnd x = Num (of_int (2 * k) * 2 powi q)"
  using rnd_tie_eqI [OF assms(1,2,3,4) _ assms(5)] by simp

lemma rnd_tie_oddI:
  assumes "2 powi e \<le> \<bar>x\<bar>" "\<bar>x\<bar> < 2 powi (e + 1)" "q = max e (- 1022) - 52"
    and "x = (of_int (2 * k + 1) + 1 / 2) * 2 powi q"
    and "\<bar>of_int (2 * k + 2) * 2 powi q\<bar> < (2::real) ^ 1024"
  shows "rnd x = Num (of_int (2 * k + 2) * 2 powi q)"
proof -
  have "2 * k + 2 = (if even (2 * k + 1) then 2 * k + 1 else 2 * k + 1 + 1)" by simp
  from rnd_tie_eqI [OF assms(1,2,3,4) this assms(5)] show ?thesis .
qed

lemma rnd_0 [simp]: "rnd 0 = Num 0"
  by (simp add: rnd_def)

lemma rnd_sqrt_0 [simp]: "rnd_sqrt 0 = Num 0"
  by (simp add: rnd_sqrt_def)

text \<open>The same for a square root, with every condition squared.\<close>

lemma rnd_sqrt_eqI:
  assumes e: "2 powi e * 2 powi e \<le> u" "u < 2 powi (e + 1) * 2 powi (e + 1)"
    and q: "q = max e (- 1022) - 52"
    and lo: "(0::real) \<le> of_int n * 2 powi q - 2 powi q / 2"
      "(of_int n * 2 powi q - 2 powi q / 2) * (of_int n * 2 powi q - 2 powi q / 2) < u"
    and hi: "u < (of_int n * 2 powi q + 2 powi q / 2) * (of_int n * 2 powi q + 2 powi q / 2)"
    and y: "\<bar>of_int n * 2 powi q\<bar> < (2::real) ^ 1024"
  shows "rnd_sqrt u = Num (of_int n * 2 powi q)"
  unfolding rnd_sqrt_def
proof (rule rnd_eqI [OF _ _ q _ y])
  have p: "(0::real) < 2 powi e" "(0::real) < 2 powi (e + 1)" "(0::real) < 2 powi q"
    by (simp_all add: zero_less_power_int)
  have u: "0 \<le> u" using e(1) p(1) by (smt (verit) mult_nonneg_nonneg)
  have s: "0 \<le> sqrt u" using u by simp
  show "2 powi e \<le> \<bar>sqrt u\<bar>"
    using e(1) s by (simp add: real_le_rsqrt power2_eq_square)
  show "\<bar>sqrt u\<bar> < 2 powi (e + 1)"
    using e(2) p(2) s by (simp add: real_less_lsqrt power2_eq_square)
  have "of_int n * 2 powi q - 2 powi q / 2 < sqrt u"
    using lo by (intro real_less_rsqrt) (simp add: power2_eq_square)
  moreover have "sqrt u < of_int n * 2 powi q + 2 powi q / 2"
    using hi lo(1) p(3) u by (intro real_less_lsqrt) (simp_all add: power2_eq_square)
  ultimately show "\<bar>sqrt u - of_int n * 2 powi q\<bar> < 2 powi q / 2"
    unfolding abs_less_iff by linarith
qed

subsection \<open>Operands that are not numbers\<close>

lemma add64_NaN [simp]: "add64 a NaN = NaN" "add64 NaN a = NaN"
  by (cases a; simp)+

lemma mul64_NaN [simp]: "mul64 a NaN = NaN" "mul64 NaN a = NaN"
  by (cases a; simp)+

lemma div64_NaN [simp]: "div64 a NaN = NaN" "div64 NaN a = NaN"
  by (cases a; simp)+

lemma sub64_Undefined [simp]: "sub64 Undefined a = NaN" "sub64 a Undefined = NaN"
  by (cases a; simp add: sub64_def)+

lemma sub64_NaN [simp]: "sub64 NaN a = NaN" "sub64 a NaN = NaN"
  by (cases a; simp add: sub64_def)+

lemma lt64_NaN [simp]: "\<not> lt64 NaN a" "\<not> lt64 a NaN"
  by (cases a; simp)+

lemma le64_NaN [simp]: "\<not> le64 NaN a" "\<not> le64 a NaN"
  by (cases a; simp)+

lemma isPointInCircle64_Undefined: "\<not> isPointInCircle64 px Undefined x y r"
  by (simp add: isPointInCircle64_def sq64_def)

lemma intersections64_Undefined:
  "getSegmentCircleIntersections64 p1 (cx, Undefined) c r = []"
  by (simp add: getSegmentCircleIntersections64_def Let_def ge64_def)

subsection \<open>Drawing\<close>

text \<open>
  C9, as the code has it. While drawing, the pointer-move handler leaves the state
  unchanged when the distance that it computes in double precision,
  \<^verbatim>\<open>Math.sqrt(dx * dx + dy * dy)\<close> with the two differences, the two products, the sum and
  the root each rounded, is less than \<open>3\<close>; otherwise it appends the sample to the last
  stroke of the collection.
\<close>

theorem sample_appended_iff_computed_far:
  assumes "isDrawing64 st" "\<not> (activeTool64 st = Eraser \<and> buttons = 1)" "lines64 st \<noteq> []"
  shows "handlePointerMove64 (Some (posx, posy)) buttons st =
     (let lastLine = last (lines64 st);
          pts = points64 lastLine;
          dx = sub64 posx (at64 pts (int (length pts) - 2));
          dy = sub64 posy (at64 pts (int (length pts) - 1));
          distance = sqrt64 (add64 (mul64 dx dx) (mul64 dy dy))
      in if lt64 distance (Num 3) then st
         else st\<lparr>lines64 := butlast (lines64 st) @
                 [lastLine\<lparr>points64 := pts @ [posx, posy]\<rparr>]\<rparr>)"
  using assms
  by (auto simp: handlePointerMove64_def appendPoint64_def Let_def MIN_POINT_DISTANCE_def)

subsection \<open>Hit testing\<close>

lemma pointToSegmentDistance64_clamped:
  "pointToSegmentDistance64 px py x1 y1 x2 y2 = clampedDistance64 (px, py) (x1, y1) (x2, y2)"
  by (simp add: pointToSegmentDistance64_def clampedDistance64_def distSq64_def Let_def)

lemma pointToSegmentDistance64_Undefined:
  "pointToSegmentDistance64 px py x1 y1 x2 Undefined = NaN"
  by (simp add: pointToSegmentDistance64_def Let_def sq64_def)

lemma at64_nth: "i < length xs \<Longrightarrow> at64 xs (int i) = xs ! i"
  by (simp add: at64_def)

lemma at64_past: "length xs \<le> i \<Longrightarrow> at64 xs (int i) = Undefined"
  by (simp add: at64_def)

lemma segmentScan64_iff:
  "segmentScan64 x y hitRadius s j \<longleftrightarrow>
     (\<exists>k. j + 2 * k + 3 < length (points64 s) \<and>
        le64 (clampedDistance64 (x, y)
                (points64 s ! (j + 2 * k), points64 s ! (j + 2 * k + 1))
                (points64 s ! (j + 2 * k + 2), points64 s ! (j + 2 * k + 3)))
             (add64 hitRadius (div64 (strokeWidth64 s) (Num 2))))"
proof (induction x y hitRadius s j rule: segmentScan64.induct)
  case (1 x y hitRadius s j)
  let ?thr = "add64 hitRadius (div64 (strokeWidth64 s) (Num 2))"
  let ?Q = "\<lambda>j k. j + 2 * k + 3 < length (points64 s) \<and>
        le64 (clampedDistance64 (x, y)
                (points64 s ! (j + 2 * k), points64 s ! (j + 2 * k + 1))
                (points64 s ! (j + 2 * k + 2), points64 s ! (j + 2 * k + 3))) ?thr"
  have shift: "(\<exists>k. ?Q j k) \<longleftrightarrow> ?Q j 0 \<or> (\<exists>k. ?Q (j + 2) k)"
  proof
    assume "\<exists>k. ?Q j k"
    then obtain k where k: "?Q j k" ..
    show "?Q j 0 \<or> (\<exists>k. ?Q (j + 2) k)"
    proof (cases k)
      case 0
      with k show ?thesis by simp
    next
      case (Suc m)
      with k have "?Q (j + 2) m" by (simp add: algebra_simps)
      then show ?thesis by blast
    qed
  next
    assume "?Q j 0 \<or> (\<exists>k. ?Q (j + 2) k)"
    then show "\<exists>k. ?Q j k"
    proof
      assume "?Q j 0" then show ?thesis by blast
    next
      assume "\<exists>k. ?Q (j + 2) k"
      then obtain m where "?Q (j + 2) m" ..
      then have "?Q j (Suc m)" by (simp add: algebra_simps)
      then show ?thesis by blast
    qed
  qed
  let ?d = "pointToSegmentDistance64 x y (at64 (points64 s) (int j))
      (at64 (points64 s) (int j + 1)) (at64 (points64 s) (int j + 2))
      (at64 (points64 s) (int j + 3))"
  show ?case
  proof (cases "j + 3 < length (points64 s)")
    case True
    then have j2: "j + 2 < length (points64 s)" by simp
    have ats: "at64 (points64 s) (int j) = points64 s ! j"
      "at64 (points64 s) (int j + 1) = points64 s ! (j + 1)"
      "at64 (points64 s) (int j + 2) = points64 s ! (j + 2)"
      "at64 (points64 s) (int j + 3) = points64 s ! (j + 3)"
      using True at64_nth [of j "points64 s"] at64_nth [of "j + 1" "points64 s"]
        at64_nth [of "j + 2" "points64 s"] at64_nth [of "j + 3" "points64 s"]
      by (simp_all add: add.commute)
    have d: "?d = clampedDistance64 (x, y) (points64 s ! j, points64 s ! (j + 1))
        (points64 s ! (j + 2), points64 s ! (j + 3))"
      by (simp only: ats pointToSegmentDistance64_clamped)
    show ?thesis
    proof (cases "le64 ?d ?thr")
      case hit: True
      then have "?Q j 0" using True d by simp
      then have "\<exists>k. ?Q j k" by blast
      moreover have "segmentScan64 x y hitRadius s j"
        using hit j2 by (subst segmentScan64.simps) (simp add: Let_def)
      ultimately show ?thesis by simp
    next
      case miss: False
      then have nq: "\<not> ?Q j 0" using d by simp
      have "segmentScan64 x y hitRadius s j = segmentScan64 x y hitRadius s (j + 2)"
        using miss j2 by (subst segmentScan64.simps) (simp add: Let_def)
      also have "\<dots> \<longleftrightarrow> (\<exists>k. ?Q (j + 2) k)"
        using "1.IH" [OF j2 refl refl refl refl refl refl miss] .
      finally show ?thesis using shift nq by blast
    qed
  next
    case False
    then have none: "\<not> (\<exists>k. ?Q j k)" by auto
    show ?thesis
    proof (cases "j + 2 < length (points64 s)")
      case True
      with False have "at64 (points64 s) (int j + 3) = Undefined"
        using at64_past [of "points64 s" "j + 3"] by (simp add: add.commute)
      then have "?d = NaN" by (simp add: pointToSegmentDistance64_Undefined)
      then have miss: "\<not> le64 ?d ?thr" by simp
      have "segmentScan64 x y hitRadius s j = segmentScan64 x y hitRadius s (j + 2)"
        using miss True by (subst segmentScan64.simps) (simp add: Let_def)
      also have "\<not> segmentScan64 x y hitRadius s (j + 2)"
        using False by (subst segmentScan64.simps) simp
      finally show ?thesis using none by simp
    next
      case False
      then have "\<not> segmentScan64 x y hitRadius s j"
        by (subst segmentScan64.simps) simp
      with none show ?thesis by simp
    qed
  qed
qed

lemma segmentScan64_hasSegmentWithin64:
  "segmentScan64 x y hitRadius s 0 \<longleftrightarrow> hasSegmentWithin64 x y hitRadius s"
proof -
  let ?P = "\<lambda>k. 2 * k + 3 < length (points64 s) \<and>
        le64 (clampedDistance64 (x, y)
                (points64 s ! (2 * k), points64 s ! (2 * k + 1))
                (points64 s ! (2 * k + 2), points64 s ! (2 * k + 3)))
             (add64 hitRadius (div64 (strokeWidth64 s) (Num 2)))"
  have "hasSegmentWithin64 x y hitRadius s \<longleftrightarrow> (\<exists>k. ?P k)"
    unfolding hasSegmentWithin64_def
  proof (intro iffI; elim bexE exE)
    fix k assume k: "?P k"
    then have "k \<in> {0..<length (points64 s) div 2}" by auto
    with k show "\<exists>k \<in> {0..<length (points64 s) div 2}. ?P k" by blast
  qed blast
  then show ?thesis by (simp add: segmentScan64_iff [of x y hitRadius s 0])
qed

lemma strokeScan64_find:
  "n \<le> length strokes \<Longrightarrow>
   strokeScan64 x y strokes hitRadius n =
     map_option id64 (find (hasSegmentWithin64 x y hitRadius) (rev (take n strokes)))"
proof (induction n)
  case 0
  then show ?case by simp
next
  case (Suc n)
  then have "take (Suc n) strokes = take n strokes @ [strokes ! n]"
    by (simp add: take_Suc_conv_app_nth)
  with Suc show ?case
    by (simp add: Let_def segmentScan64_hasSegmentWithin64)
qed

lemma findStroke64_find:
  "findStrokeAtPosition64 x y strokes hitRadius =
     map_option id64 (find (hasSegmentWithin64 x y hitRadius) (rev strokes))"
  by (simp add: findStrokeAtPosition64_def strokeScan64_find)

text \<open>
  C7, as the code has it. \<open>findStrokeAtPosition\<close> looks at the strokes from the last
  inserted to the first and returns the identifier of the first one that has a segment
  whose clamped distance from the query point, computed in double precision, is at most
  the computed \<open>radius + strokeWidth / 2\<close>, and none when there is no such stroke. In
  particular, of two strokes within reach in this sense, the later one is reported when no
  stroke after it is within reach.
\<close>

theorem findStroke64_topmost_first:
  "findStrokeAtPosition64 x y strokes radius =
     (case find (hasSegmentWithin64 x y radius) (rev strokes) of
        None \<Rightarrow> None
      | Some s \<Rightarrow> Some (id64 s)) \<and>
   (\<forall>i j. i < j \<and> j < length strokes \<and>
      hasSegmentWithin64 x y radius (strokes ! i) \<and>
      hasSegmentWithin64 x y radius (strokes ! j) \<and>
      (\<forall>k. j < k \<and> k < length strokes \<longrightarrow> \<not> hasSegmentWithin64 x y radius (strokes ! k)) \<longrightarrow>
      findStrokeAtPosition64 x y strokes radius = Some (id64 (strokes ! j)))"
proof (intro conjI allI impI)
  show "findStrokeAtPosition64 x y strokes radius =
     (case find (hasSegmentWithin64 x y radius) (rev strokes) of
        None \<Rightarrow> None
      | Some s \<Rightarrow> Some (id64 s))"
    by (simp add: findStroke64_find map_option_case)
next
  fix i j
  assume a: "i < j \<and> j < length strokes \<and>
      hasSegmentWithin64 x y radius (strokes ! i) \<and>
      hasSegmentWithin64 x y radius (strokes ! j) \<and>
      (\<forall>k. j < k \<and> k < length strokes \<longrightarrow> \<not> hasSegmentWithin64 x y radius (strokes ! k))"
  then have "find (hasSegmentWithin64 x y radius) (rev strokes) = Some (strokes ! j)"
    by (intro find_rev_last) auto
  then show "findStrokeAtPosition64 x y strokes radius = Some (id64 (strokes ! j))"
    by (simp add: findStroke64_find)
qed

subsection \<open>Partial eraser: the first point\<close>

lemma finishLine64_short:
  "length (currentLinePoints64 st) < 4 \<Longrightarrow> result64 (finishLine64 stroke st) = result64 st"
  by (simp add: finishLine64_def)

lemma list4_64: "4 \<le> length (xs :: jsnum list) \<Longrightarrow> \<exists>a b c d rest. xs = a # b # c # d # rest"
  by (auto simp: numeral_eq_Suc Suc_le_length_iff)

text \<open>
  C3, as the code has it. The partial eraser enters its loop over the segments of a stroke
  of at least two points with the run made of the first point if the membership test of
  the source, \<^verbatim>\<open>(px - x) ** 2 + (py - y) ** 2 < r ** 2\<close> evaluated in double precision, fails,
  and with the empty run if it holds; a first point for which the two sides are computed
  equal starts the run. The effect shows on a stroke of two points on whose segment no
  intersection is computed and whose second point is not inside: it comes back, as its
  fragment number 0, exactly when the test fails on its first point.
\<close>

theorem first_point_seeds_run:
  assumes "4 \<le> length (points64 s)"
  shows "eraseStroke64 x y r s res =
           result64 (finishLine64 s
             (segmentLoop64 x y r s (points64 s ! 0) (points64 s ! 1) (drop 2 (points64 s))
               \<lparr>result64 = res,
                currentLinePoints64 =
                  (if lt64 (add64 (sq64 (sub64 (points64 s ! 0) x))
                                  (sq64 (sub64 (points64 s ! 1) y))) (sq64 r)
                   then [] else [points64 s ! 0, points64 s ! 1]),
                segmentCount64 = 0\<rparr>)) \<and>
         (\<forall>px py cx cy.
            points64 s = [px, py, cx, cy] \<and>
            getSegmentCircleIntersections64 (px, py) (cx, cy) (x, y) r = [] \<and>
            \<not> isPointInCircle64 cx cy x y r \<longrightarrow>
            eraseStroke64 x y r s res =
              (if lt64 (add64 (sq64 (sub64 px x)) (sq64 (sub64 py y))) (sq64 r) then res
               else res @ [s\<lparr>id64 := id64 s @ ''-0''\<rparr>]))"
proof (intro conjI allI impI)
  show "eraseStroke64 x y r s res =
           result64 (finishLine64 s
             (segmentLoop64 x y r s (points64 s ! 0) (points64 s ! 1) (drop 2 (points64 s))
               \<lparr>result64 = res,
                currentLinePoints64 =
                  (if lt64 (add64 (sq64 (sub64 (points64 s ! 0) x))
                                  (sq64 (sub64 (points64 s ! 1) y))) (sq64 r)
                   then [] else [points64 s ! 0, points64 s ! 1]),
                segmentCount64 = 0\<rparr>))"
    using assms by (simp add: eraseStroke64_def isPointInCircle64_def Let_def)
next
  fix px py cx cy
  assume a: "points64 s = [px, py, cx, cy] \<and>
            getSegmentCircleIntersections64 (px, py) (cx, cy) (x, y) r = [] \<and>
            \<not> isPointInCircle64 cx cy x y r"
  have "s\<lparr>id64 := id64 s @ ''-0'', points64 := [px, py, cx, cy]\<rparr> =
      s\<lparr>id64 := id64 s @ ''-0''\<rparr>"
    using a by simp
  then show "eraseStroke64 x y r s res =
              (if lt64 (add64 (sq64 (sub64 px x)) (sq64 (sub64 py y))) (sq64 r) then res
               else res @ [s\<lparr>id64 := id64 s @ ''-0''\<rparr>])"
    using a
    by (simp add: eraseStroke64_def isPointInCircle64_def [of px py] Let_def segmentStep64_def
        pushPoint64_def finishLine64_def show_nat_0)
qed

subsection \<open>Partial eraser: strokes that the tests find inside the circle\<close>

lemma finishLine64_empty: "currentLinePoints64 st = [] \<Longrightarrow> finishLine64 stroke st = st"
  by (simp add: finishLine64_def)

lemma segmentLoop64_inside:
  "isPointInCircle64 px py x y r \<Longrightarrow> allInside64 x y r rest \<Longrightarrow>
   noIntersections64 x y r (px # py # rest) \<Longrightarrow> currentLinePoints64 st = [] \<Longrightarrow>
   result64 (finishLine64 stroke (segmentLoop64 x y r stroke px py rest st)) = result64 st"
proof (induction x y r stroke px py rest st rule: segmentLoop64.induct)
  case (1 x y r stroke px py st)
  then show ?case by (simp add: finishLine64_empty)
next
  case (2 x y r stroke px py cx st)
  then show ?case
    by (simp add: segmentStep64_def intersections64_Undefined isPointInCircle64_Undefined
        pushPoint64_def finishLine64_def)
next
  case (3 x y r stroke px py cx cy rest st)
  then have "segmentStep64 x y r stroke px py cx cy st = st"
    by (simp add: segmentStep64_def finishLine64_empty)
  with 3 show ?case by simp
qed

lemma eraseStroke64_inside:
  assumes "4 \<le> length (points64 s)" "allInside64 x y r (points64 s)"
    "noIntersections64 x y r (points64 s)"
  shows "eraseStroke64 x y r s res = res"
proof -
  from list4_64 [OF assms(1)] obtain px py rest where pts: "points64 s = px # py # rest"
    by blast
  with assms have "isPointInCircle64 px py x y r" "allInside64 x y r rest"
    "noIntersections64 x y r (px # py # rest)" by simp_all
  from segmentLoop64_inside [OF this, of "\<lparr>result64 = res, currentLinePoints64 = [],
      segmentCount64 = 0\<rparr>" s]
  show ?thesis
    using assms(1) pts \<open>isPointInCircle64 px py x y r\<close>
    by (simp add: eraseStroke64_def)
qed

text \<open>
  C4, as the code has it. A stroke of at least two points leaves no fragment when the
  tests of the source, evaluated in double precision, find every one of its points inside
  the circle and no intersection of the circle with any of its segments.
\<close>

theorem stroke_found_inside_vanishes:
  assumes "4 \<le> length (points64 s)" "allInside64 x y r (points64 s)"
    "noIntersections64 x y r (points64 s)"
  shows "eraseStroke64 x y r s res = res \<and> eraseAtPosition64 x y [s] r = []"
  using eraseStroke64_inside [OF assms] by (simp add: eraseAtPosition64_def)

subsection \<open>Partial eraser: strokes that the tests find clear of the circle\<close>

lemma segmentLoop64_clear:
  "noIntersections64 x y r (px # py # rest) \<Longrightarrow> noneInside64 x y r rest \<Longrightarrow>
   even (length rest) \<Longrightarrow>
   segmentLoop64 x y r stroke px py rest st =
     st\<lparr>currentLinePoints64 := currentLinePoints64 st @ rest\<rparr>"
proof (induction x y r stroke px py rest st rule: segmentLoop64.induct)
  case (1 x y r stroke px py st)
  then show ?case by simp
next
  case (2 x y r stroke px py cx st)
  then show ?case by simp
next
  case (3 x y r stroke px py cx cy rest st)
  then have "segmentStep64 x y r stroke px py cx cy st = pushPoint64 cx cy st"
    by (simp add: segmentStep64_def)
  with 3 show ?case by (simp add: pushPoint64_def)
qed

lemma eraseStroke64_clear:
  assumes "4 \<le> length (points64 s)" "even (length (points64 s))"
    "noIntersections64 x y r (points64 s)" "noneInside64 x y r (points64 s)"
  shows "eraseStroke64 x y r s res = res @ [s\<lparr>id64 := id64 s @ ''-0''\<rparr>]"
proof -
  from list4_64 [OF assms(1)] obtain px py rest where pts: "points64 s = px # py # rest"
    by blast
  with assms have h: "noIntersections64 x y r (px # py # rest)" "noneInside64 x y r rest"
    "even (length rest)" "\<not> isPointInCircle64 px py x y r" by simp_all
  have "s\<lparr>id64 := id64 s @ ''-0'', points64 := points64 s\<rparr> = s\<lparr>id64 := id64 s @ ''-0''\<rparr>"
    by simp
  then show ?thesis
    using assms(1) pts h(4) segmentLoop64_clear [OF h(1,2,3)]
    by (simp add: eraseStroke64_def finishLine64_def show_nat_0)
qed

lemma eraseStroke64_short: "length (points64 s) < 4 \<Longrightarrow> eraseStroke64 x y r s res = res @ [s]"
  by (simp add: eraseStroke64_def)

lemma foldl_eraseStroke64_clear:
  assumes "\<forall>s \<in> set strokes. 4 \<le> length (points64 s) \<longrightarrow>
      even (length (points64 s)) \<and> noIntersections64 x y r (points64 s) \<and>
      noneInside64 x y r (points64 s)"
  shows "foldl (\<lambda>res stroke. eraseStroke64 x y r stroke res) res strokes =
     res @ map (\<lambda>s. if length (points64 s) < 4 then s
                     else s\<lparr>id64 := id64 s @ ''-0''\<rparr>) strokes"
  using assms
proof (induction strokes arbitrary: res)
  case Nil
  then show ?case by simp
next
  case (Cons s strokes)
  show ?case
  proof (cases "length (points64 s) < 4")
    case True
    with Cons show ?thesis by (simp add: eraseStroke64_short)
  next
    case False
    then have l: "4 \<le> length (points64 s)" by simp
    with Cons.prems have "even (length (points64 s))" "noIntersections64 x y r (points64 s)"
      "noneInside64 x y r (points64 s)" by simp_all
    from eraseStroke64_clear [OF l this, of res] Cons False show ?thesis by simp
  qed
qed

text \<open>
  C2, as the code has it. When, for every stroke of at least two points, the tests of the
  source, evaluated in double precision, find no intersection of the circle with any
  segment and no point inside the circle, the partial eraser returns the strokes in the
  same order, each with its points, its colour and its width; a stroke of fewer than two
  points keeps its identifier, and every other stroke gets its identifier with \<open>-0\<close>
  appended.
\<close>

theorem erase_clear_keeps_shape:
  assumes "\<forall>s \<in> set strokes. 4 \<le> length (points64 s) \<longrightarrow>
      even (length (points64 s)) \<and> noIntersections64 x y r (points64 s) \<and>
      noneInside64 x y r (points64 s)"
  shows "eraseAtPosition64 x y strokes r =
     map (\<lambda>s. if length (points64 s) < 4 then s
               else s\<lparr>id64 := id64 s @ ''-0''\<rparr>) strokes"
  using foldl_eraseStroke64_clear [OF assms, of "[]"] by (simp add: eraseAtPosition64_def)

subsection \<open>Drawing: samples at the threshold\<close>

text \<open>
  The roundings that occur when the handler measures the sample \<open>(3.3, 0.5)\<close> from the
  point \<open>(0.3, 0.5)\<close>, and the samples \<open>(7.9, 5)\<close> and \<open>(8, 5)\<close> from the point \<open>(5, 5)\<close>.
\<close>

lemma r64_r1: "rnd (33 / 10) = Num (3715469692580659 / 1125899906842624)"
  using rnd_eqI [of "1" "33 / 10" "- 51" "7430939385161318"] by simp

lemma r64_r2: "rnd (1 / 2) = Num (1 / 2)"
  using rnd_eqI [of "- 1" "1 / 2" "- 53" "4503599627370496"] by simp

lemma r64_r3: "rnd (3 / 10) = Num (5404319552844595 / 18014398509481984)"
  using rnd_eqI [of "- 2" "3 / 10" "- 54" "5404319552844595"] by simp

lemma r64_r4: "rnd (54043195528445949 / 18014398509481984) = Num (3)"
  using rnd_eqI [of "1" "54043195528445949 / 18014398509481984" "- 51" "6755399441055744"] by simp

lemma r64_r5: "rnd (9) = Num (9)"
  using rnd_eqI [of "3" "9" "- 49" "5066549580791808"] by simp

lemma r64_s1: "rnd_sqrt (9) = Num (3)"
  using rnd_sqrt_eqI [of "1" "9" "- 51" "6755399441055744"] by simp

lemmas sketch64_roundings = r64_r1 r64_r2 r64_r3 r64_r4 r64_r5 r64_s1

lemma r64_r6: "rnd (79 / 10) = Num (4447304632028365 / 562949953421312)"
  using rnd_eqI [of "2" "79 / 10" "- 50" "8894609264056730"] by simp

lemma r64_r7: "rnd (1632554864921805 / 562949953421312) = Num (1632554864921805 / 562949953421312)"
  using rnd_eqI [of "1" "1632554864921805 / 562949953421312" "- 51" "6530219459687220"] by simp

lemma r64_r8: "rnd (2665235386979852969668764458025 / 316912650057057350374175801344) = Num (4734409108273235 / 562949953421312)"
  using rnd_eqI [of "3" "2665235386979852969668764458025 / 316912650057057350374175801344" "- 49" "4734409108273235"] by simp

lemma r64_r9: "rnd (4734409108273235 / 562949953421312) = Num (4734409108273235 / 562949953421312)"
  using rnd_eqI [of "3" "4734409108273235 / 562949953421312" "- 49" "4734409108273235"] by simp

lemma r64_r10: "rnd (3) = Num (3)"
  using rnd_eqI [of "1" "3" "- 51" "6755399441055744"] by simp

lemma r64_s2: "rnd_sqrt (4734409108273235 / 562949953421312) = Num (1632554864921805 / 562949953421312)"
  using rnd_sqrt_eqI [of "1" "4734409108273235 / 562949953421312" "- 51" "6530219459687220"] by simp

lemmas drawing64_roundings = r64_r6 r64_r7 r64_r8 r64_r9 r64_r10 r64_r5 r64_s2 r64_s1

text \<open>
  C9 as stated fails in double precision: from the last point \<open>(0.3, 0.5)\<close> the sample
  \<open>(3.3, 0.5)\<close> is appended, since the difference of the two doubles is rounded to \<open>3\<close>,
  while the Euclidean distance of the two points is less than \<open>3\<close>.
\<close>

theorem sample_below_three_appended:
  "handlePointerMove64 (Some (rnd (33 / 10), rnd (1 / 2))) 0 sketch64 =
     sketch64\<lparr>lines64 :=
       [spot64\<lparr>points64 := [rnd (3 / 10), rnd (1 / 2), rnd (33 / 10), rnd (1 / 2)]\<rparr>]\<rparr> \<and>
   sqrt ((val (rnd (33 / 10)) - val (rnd (3 / 10)))\<^sup>2 +
         (val (rnd (1 / 2)) - val (rnd (1 / 2)))\<^sup>2) < 3"
proof
  show "handlePointerMove64 (Some (rnd (33 / 10), rnd (1 / 2))) 0 sketch64 =
     sketch64\<lparr>lines64 :=
       [spot64\<lparr>points64 := [rnd (3 / 10), rnd (1 / 2), rnd (33 / 10), rnd (1 / 2)]\<rparr>]\<rparr>"
    by (simp add: handlePointerMove64_def appendPoint64_def at64_def sub64_def Let_def
        MIN_POINT_DISTANCE_def sketch64_def spot64_def sketch64_roundings)
  show "sqrt ((val (rnd (33 / 10)) - val (rnd (3 / 10)))\<^sup>2 +
         (val (rnd (1 / 2)) - val (rnd (1 / 2)))\<^sup>2) < 3"
    by (rule real_less_lsqrt) (simp_all add: sketch64_roundings power2_eq_square)
qed

theorem sample_appended_iff_computed_far_witness:
  "handlePointerMove64 (Some (rnd (79 / 10), Num 5)) 0 drawing64 = drawing64 \<and>
   handlePointerMove64 (Some (Num 8, Num 5)) 0 drawing64 =
     drawing64\<lparr>lines64 := [lower64, dot64\<lparr>points64 := [Num 5, Num 5, Num 8, Num 5]\<rparr>]\<rparr>"
  using sample_appended_iff_computed_far [of drawing64 0 "rnd (79 / 10)" "Num 5"]
    sample_appended_iff_computed_far [of drawing64 0 "Num 8" "Num 5"]
  by (simp add: drawing64_def dot64_def at64_def sub64_def Let_def drawing64_roundings)

subsection \<open>Hit testing: a stroke at the threshold\<close>

text \<open>
  The roundings that occur when the hit test measures the query point \<open>(0.2, 4.5)\<close> against
  the segment from \<open>(3.2, 0.5)\<close> to \<open>(53.2, 0.5)\<close>, and the query point \<open>(5, 0)\<close> against the
  segments from \<open>(0, 0)\<close> to \<open>(10, 0)\<close> and from \<open>(0, 1)\<close> to \<open>(10, 1)\<close>.
\<close>

lemma r64_r11: "rnd (1 / 5) = Num (3602879701896397 / 18014398509481984)"
  using rnd_eqI [of "- 3" "1 / 5" "- 55" "7205759403792794"] by simp

lemma r64_r12: "rnd (9 / 2) = Num (9 / 2)"
  using rnd_eqI [of "2" "9 / 2" "- 50" "5066549580791808"] by simp

lemma r64_r13: "rnd (16 / 5) = Num (3602879701896397 / 1125899906842624)"
  using rnd_eqI [of "1" "16 / 5" "- 51" "7205759403792794"] by simp

lemma r64_r14: "rnd (266 / 5) = Num (3743617190251725 / 70368744177664)"
  using rnd_eqI [of "5" "266 / 5" "- 47" "7487234380503450"] by simp

lemma r64_r15: "rnd (56294995342131203 / 1125899906842624) = Num (50)"
  using rnd_eqI [of "5" "56294995342131203 / 1125899906842624" "- 47" "7036874417766400"] by simp

lemma r64_r16: "rnd (2500) = Num (2500)"
  using rnd_eqI [of "11" "2500" "- 41" "5497558138880000"] by simp

lemma r64_r17: "rnd (- (54043195528445955 / 18014398509481984)) = Num (- 3)"
  using rnd_eqI [of "1" "- (54043195528445955 / 18014398509481984)" "- 51" "- 6755399441055744"] by simp

lemma r64_r18: "rnd (- 150) = Num (- 150)"
  using rnd_eqI [of "7" "- 150" "- 45" "- 5277655813324800"] by simp

lemma r64_r19: "rnd (4) = Num (4)"
  using rnd_eqI [of "2" "4" "- 50" "4503599627370496"] by simp

lemma r64_r20: "rnd (- (3 / 50)) = Num (- (1080863910568919 / 18014398509481984))"
  using rnd_eqI [of "- 5" "- (3 / 50)" "- 57" "- 8646911284551352"] by simp

lemma r64_r21: "rnd (3602879701896397 / 1125899906842624) = Num (3602879701896397 / 1125899906842624)"
  using rnd_eqI [of "1" "3602879701896397 / 1125899906842624" "- 51" "7205759403792794"] by simp

lemma r64_r22: "rnd (16) = Num (16)"
  using rnd_eqI [of "4" "16" "- 48" "4503599627370496"] by simp

lemma r64_r23: "rnd (25) = Num (25)"
  using rnd_eqI [of "4" "25" "- 48" "7036874417766400"] by simp

lemma r64_r24: "rnd (5 / 2) = Num (5 / 2)"
  using rnd_eqI [of "1" "5 / 2" "- 51" "5629499534213120"] by simp

lemma r64_r25: "rnd (5) = Num (5)"
  using rnd_eqI [of "2" "5" "- 50" "5629499534213120"] by simp

lemma r64_s3: "rnd_sqrt (25) = Num (5)"
  using rnd_sqrt_eqI [of "2" "25" "- 50" "5629499534213120"] by simp

lemmas reach64_roundings = r64_r11 r64_r12 r64_r13 r64_r2 r64_r14 r64_r15 r64_r16 r64_r17 r64_r18 r64_r19 r64_r20 r64_r21 r64_r5 r64_r22 r64_r23 r64_r24 r64_r25 r64_s3

lemma r64_r26: "rnd (10) = Num (10)"
  using rnd_eqI [of "3" "10" "- 49" "5629499534213120"] by simp

lemma r64_r27: "rnd (100) = Num (100)"
  using rnd_eqI [of "6" "100" "- 46" "7036874417766400"] by simp

lemma r64_r28: "rnd (50) = Num (50)"
  using rnd_eqI [of "5" "50" "- 47" "7036874417766400"] by simp

lemma r64_r29: "rnd (- 1) = Num (- 1)"
  using rnd_eqI [of "0" "- 1" "- 52" "- 4503599627370496"] by simp

lemma r64_r30: "rnd (1) = Num (1)"
  using rnd_eqI [of "0" "1" "- 52" "4503599627370496"] by simp

lemma r64_s4: "rnd_sqrt (1) = Num (1)"
  using rnd_sqrt_eqI [of "0" "1" "- 52" "4503599627370496"] by simp

lemmas lower64_roundings = r64_r26 r64_r27 r64_r25 r64_r28 r64_r2 r64_r29 r64_r30 r64_r10 r64_s4

lemma segmentOutside_moving_away:
  assumes "r\<^sup>2 < distSq p1 c"
    and "0 \<le> (fst p1 - fst c) * (fst p2 - fst p1) + (snd p1 - snd c) * (snd p2 - snd p1)"
  shows "segmentOutside p1 p2 c r"
  unfolding segmentOutside_def
proof (intro allI impI)
  fix t :: real
  assume t: "0 \<le> t \<and> t \<le> 1"
  let ?a = "(fst p2 - fst p1) * (fst p2 - fst p1) + (snd p2 - snd p1) * (snd p2 - snd p1)"
  let ?b = "(fst p1 - fst c) * (fst p2 - fst p1) + (snd p1 - snd c) * (snd p2 - snd p1)"
  have "distSq (lerp p1 p2 t) c = ?a * t\<^sup>2 + 2 * ?b * t + distSq p1 c"
    by (simp add: distSq_def lerp_def power2_eq_square algebra_simps)
  moreover have "0 \<le> ?a * t\<^sup>2" by simp
  moreover have "0 \<le> 2 * ?b * t" using assms(2) t by simp
  ultimately show "r\<^sup>2 < distSq (lerp p1 p2 t) c" using assms(1) by linarith
qed

lemma reach64_within: "hasSegmentWithin64 (rnd (1 / 5)) (rnd (9 / 2)) (rnd (5 / 2)) reach64"
  unfolding hasSegmentWithin64_def
  by (rule bexI [of _ 0])
    (simp_all add: reach64_def clampedDistance64_def distSq64_def sq64_def sub64_def Let_def
      reach64_roundings)

text \<open>
  C7 as stated fails in double precision: the stroke from \<open>(3.2, 0.5)\<close> to \<open>(53.2, 0.5)\<close> of
  width \<open>5\<close> is found from the query point \<open>(0.2, 4.5)\<close> with the radius \<open>2.5\<close>, since the
  computed distance is \<open>5\<close>, while every point of its segment is farther than
  \<open>2.5 + 5 / 2 = 5\<close> from the query point.
\<close>

theorem stroke_out_of_reach_found:
  "findStrokeAtPosition64 (rnd (1 / 5)) (rnd (9 / 2)) [reach64] (rnd (5 / 2)) = Some ''s'' \<and>
   val (rnd (5 / 2)) + 5 / 2 = 5 \<and>
   segmentOutside (val (rnd (16 / 5)), val (rnd (1 / 2))) (val (rnd (266 / 5)), val (rnd (1 / 2)))
     (val (rnd (1 / 5)), val (rnd (9 / 2))) 5"
proof (intro conjI)
  show "findStrokeAtPosition64 (rnd (1 / 5)) (rnd (9 / 2)) [reach64] (rnd (5 / 2)) = Some ''s''"
    using reach64_within by (simp add: findStroke64_find reach64_def)
  show "val (rnd (5 / 2)) + 5 / 2 = 5"
    by (simp add: reach64_roundings)
  show "segmentOutside (val (rnd (16 / 5)), val (rnd (1 / 2)))
     (val (rnd (266 / 5)), val (rnd (1 / 2))) (val (rnd (1 / 5)), val (rnd (9 / 2))) 5"
    by (rule segmentOutside_moving_away)
      (simp_all add: reach64_roundings distSq_def power2_eq_square)
qed

lemma lower64_within: "hasSegmentWithin64 (Num 5) (Num 0) (Num 2) lower64"
  unfolding hasSegmentWithin64_def
  by (rule bexI [of _ 0])
    (simp_all add: lower64_def clampedDistance64_def distSq64_def sq64_def sub64_def Let_def
      lower64_roundings)

lemma upper64_within: "hasSegmentWithin64 (Num 5) (Num 0) (Num 2) upper64"
  unfolding hasSegmentWithin64_def
  by (rule bexI [of _ 0])
    (simp_all add: upper64_def clampedDistance64_def distSq64_def sq64_def sub64_def Let_def
      lower64_roundings)

theorem findStroke64_topmost_first_witness:
  "hasSegmentWithin64 (Num 5) (Num 0) (Num 2) lower64 \<and>
   hasSegmentWithin64 (Num 5) (Num 0) (Num 2) upper64 \<and>
   findStrokeAtPosition64 (Num 5) (Num 0) [lower64, upper64] (Num 2) = Some ''b''"
proof -
  have "findStrokeAtPosition64 (Num 5) (Num 0) [lower64, upper64] (Num 2)
      = Some (id64 ([lower64, upper64] ! 1))"
    using findStroke64_topmost_first [of "Num 5" "Num 0" "[lower64, upper64]" "Num 2"]
      lower64_within upper64_within
    by (elim conjE allE [of _ 0] allE [of _ 1]) simp
  then show ?thesis
    using lower64_within upper64_within by (simp add: upper64_def)
qed

subsection \<open>Partial eraser: strokes at the boundary of the circle\<close>

text \<open>
  The roundings that occur when the partial eraser runs on the example strokes.
\<close>

lemma r64_r31: "rnd (- 5) = Num (- 5)"
  using rnd_eqI [of "2" "- 5" "- 50" "- 5629499534213120"] by simp

lemma r64_r32: "rnd (- 50) = Num (- 50)"
  using rnd_eqI [of "5" "- 50" "- 47" "- 7036874417766400"] by simp

lemma r64_r33: "rnd (2525) = Num (2525)"
  using rnd_eqI [of "11" "2525" "- 41" "5552533720268800"] by simp

lemma r64_r34: "rnd (- 100) = Num (- 100)"
  using rnd_eqI [of "6" "- 100" "- 46" "- 7036874417766400"] by simp

lemma r64_r35: "rnd (2425) = Num (2425)"
  using rnd_eqI [of "11" "2425" "- 41" "5332631394713600"] by simp

lemma r64_r36: "rnd (10000) = Num (10000)"
  using rnd_eqI [of "13" "10000" "- 39" "5497558138880000"] by simp

lemma r64_r37: "rnd (400) = Num (400)"
  using rnd_eqI [of "8" "400" "- 44" "7036874417766400"] by simp

lemma r64_r38: "rnd (970000) = Num (970000)"
  using rnd_eqI [of "19" "970000" "- 33" "8332236554240000"] by simp

lemma r64_r39: "rnd (- 960000) = Num (- 960000)"
  using rnd_eqI [of "19" "- 960000" "- 33" "- 8246337208320000"] by simp

lemmas clear64_roundings = r64_r31 r64_r23 r64_r32 r64_r16 r64_r33 r64_r27 r64_r26 r64_r34 r64_r35 r64_r36 r64_r37 r64_r38 r64_r39 r64_r25

lemma r64_r40: "rnd (200) = Num (200)"
  using rnd_eqI [of "7" "200" "- 45" "7036874417766400"] by simp

lemma r64_r41: "rnd (40000) = Num (40000)"
  using rnd_eqI [of "15" "40000" "- 37" "5497558138880000"] by simp

lemma r64_r42: "rnd (- 400) = Num (- 400)"
  using rnd_eqI [of "8" "- 400" "- 44" "- 7036874417766400"] by simp

lemma r64_r43: "rnd (- 2) = Num (- 2)"
  using rnd_eqI [of "1" "- 2" "- 51" "- 4503599627370496"] by simp

lemma r64_r44: "rnd (20) = Num (20)"
  using rnd_eqI [of "4" "20" "- 48" "5629499534213120"] by simp

lemma r64_s5: "rnd_sqrt (40000) = Num (200)"
  using rnd_sqrt_eqI [of "7" "40000" "- 45" "7036874417766400"] by simp

lemmas touching64_roundings = r64_r26 r64_r27 r64_r40 r64_r41 r64_r37 r64_r42 r64_r43 r64_r44 r64_s5

lemma r64_r45: "rnd (31 / 10) = Num (6980579422424269 / 2251799813685248)"
  using rnd_eqI [of "1" "31 / 10" "- 51" "6980579422424269"] by simp

lemma r64_r46: "rnd (- (19 / 5)) = Num (- (4278419646001971 / 1125899906842624))"
  using rnd_eqI [of "1" "- (19 / 5)" "- 51" "- 8556839292003942"] by simp

lemma r64_r47: "rnd (1 / 10) = Num (3602879701896397 / 36028797018963968)"
  using rnd_eqI [of "- 4" "1 / 10" "- 56" "7205759403792794"] by simp

lemma r64_r48: "rnd (108086391056891907 / 36028797018963968) = Num (3)"
  using rnd_eqI [of "1" "108086391056891907 / 36028797018963968" "- 51" "6755399441055744"] by simp

lemma r64_r49: "rnd (- (72057594037927933 / 18014398509481984)) = Num (- 4)"
  using rnd_eqI [of "1" "- (72057594037927933 / 18014398509481984)" "- 51" "- 9007199254740992"] by simp

lemmas inner64_roundings = r64_r45 r64_r46 r64_r47 r64_r11 r64_r48 r64_r5 r64_r49 r64_r22 r64_r23

lemma r64_r50: "rnd (2) = Num (2)"
  using rnd_eqI [of "1" "2" "- 51" "4503599627370496"] by simp

lemma r64_r51: "rnd (- 4) = Num (- 4)"
  using rnd_eqI [of "2" "- 4" "- 50" "- 4503599627370496"] by simp

lemma r64_r52: "rnd (- 99) = Num (- 99)"
  using rnd_eqI [of "6" "- 99" "- 46" "- 6966505673588736"] by simp

lemma r64_r53: "rnd (- 1584) = Num (- 1584)"
  using rnd_eqI [of "10" "- 1584" "- 42" "- 6966505673588736"] by simp

lemma r64_r54: "rnd (1600) = Num (1600)"
  using rnd_eqI [of "10" "1600" "- 42" "7036874417766400"] by simp

lemma r64_r55: "rnd (- 36) = Num (- 36)"
  using rnd_eqI [of "5" "- 36" "- 47" "- 5066549580791808"] by simp

lemma r64_r56: "rnd (8) = Num (8)"
  using rnd_eqI [of "3" "8" "- 49" "4503599627370496"] by simp

lemma r64_r57: "rnd (- (9 / 2)) = Num (- (9 / 2))"
  using rnd_eqI [of "2" "- (9 / 2)" "- 50" "- 5066549580791808"] by simp

lemma r64_r58: "rnd (44) = Num (44)"
  using rnd_eqI [of "5" "44" "- 47" "6192449487634432"] by simp

lemma r64_r59: "rnd (11 / 2) = Num (11 / 2)"
  using rnd_eqI [of "2" "11 / 2" "- 50" "6192449487634432"] by simp

lemma r64_r60: "rnd (1584) = Num (1584)"
  using rnd_eqI [of "10" "1584" "- 42" "6966505673588736"] by simp

lemma r64_r61: "rnd (- (5601281313739623 / 140737488355328)) = Num (- (5601281313739623 / 140737488355328))"
  using rnd_eqI [of "5" "- (5601281313739623 / 140737488355328)" "- 47" "- 5601281313739623"] by simp

lemma r64_r62: "rnd (- (5601281313739623 / 1125899906842624)) = Num (- (5601281313739623 / 1125899906842624))"
  using rnd_eqI [of "2" "- (5601281313739623 / 1125899906842624)" "- 50" "- 5601281313739623"] by simp

lemma r64_r63: "rnd (5601281313739623 / 140737488355328) = Num (5601281313739623 / 140737488355328)"
  using rnd_eqI [of "5" "5601281313739623 / 140737488355328" "- 47" "5601281313739623"] by simp

lemma r64_r64: "rnd (5601281313739623 / 1125899906842624) = Num (5601281313739623 / 1125899906842624)"
  using rnd_eqI [of "2" "5601281313739623 / 1125899906842624" "- 50" "5601281313739623"] by simp

lemma r64_s6: "rnd_sqrt (1600) = Num (40)"
  using rnd_sqrt_eqI [of "5" "1600" "- 47" "5629499534213120"] by simp

lemma r64_s7: "rnd_sqrt (1584) = Num (5601281313739623 / 140737488355328)"
  using rnd_sqrt_eqI [of "5" "1584" "- 47" "5601281313739623"] by simp

lemmas short64_roundings = r64_r29 r64_r30 r64_r27 r64_r50 r64_r19 r64_r43 r64_r51 r64_r52 r64_r22 r64_r53 r64_r54 r64_r55 r64_r56 r64_r57 r64_r58 r64_r59 r64_r60 r64_r61 r64_r62 r64_r63 r64_r64 r64_r25 r64_s6 r64_s7

lemma r64_r65: "rnd (303 / 10) = Num (8528691794332877 / 281474976710656)"
  using rnd_eqI [of "4" "303 / 10" "- 48" "8528691794332877"] by simp

lemma r64_r66: "rnd (91 / 2) = Num (91 / 2)"
  using rnd_eqI [of "5" "91 / 2" "- 47" "6403555720167424"] by simp

lemma r64_r67: "rnd (139 / 2) = Num (139 / 2)"
  using rnd_eqI [of "6" "139 / 2" "- 46" "4890627720347648"] by simp

lemma r64_r68: "rnd (169 / 5) = Num (2378463553205043 / 70368744177664)"
  using rnd_eqI [of "5" "169 / 5" "- 47" "4756927106410086"] by simp

lemma r64_r69: "rnd (115 / 2) = Num (115 / 2)"
  using rnd_eqI [of "5" "115 / 2" "- 47" "8092405580431360"] by simp

lemma r64_r70: "rnd (25 / 2) = Num (25 / 2)"
  using rnd_eqI [of "3" "25 / 2" "- 49" "7036874417766400"] by simp

lemma r64_r71: "rnd (- (985162418487295 / 281474976710656)) = Num (- (985162418487295 / 281474976710656))"
  using rnd_eqI [of "1" "- (985162418487295 / 281474976710656)" "- 51" "- 7881299347898360"] by simp

lemma r64_r72: "rnd (970544990799736165196076417025 / 79228162514264337593543950336) = Num (3448068464705529 / 281474976710656)"
  using rnd_eqI [of "3" "970544990799736165196076417025 / 79228162514264337593543950336" "- 49" "6896136929411058"] by simp

lemma r64_r73: "rnd (- 12) = Num (- 12)"
  using rnd_eqI [of "3" "- 12" "- 49" "- 6755399441055744"] by simp

lemma r64_r74: "rnd (144) = Num (144)"
  using rnd_eqI [of "7" "144" "- 45" "5066549580791808"] by simp

lemma r64_r75: "rnd (43980465111039993 / 281474976710656) = Num (5497558138879999 / 35184372088832)"
  using rnd_eqI [of "7" "43980465111039993 / 281474976710656" "- 45" "5497558138879999"] by simp

lemma r64_r76: "rnd (625 / 4) = Num (625 / 4)"
  using rnd_eqI [of "7" "625 / 4" "- 45" "5497558138880000"] by simp

lemma r64_r77: "rnd (24) = Num (24)"
  using rnd_eqI [of "4" "24" "- 48" "6755399441055744"] by simp

lemma r64_r78: "rnd (576) = Num (576)"
  using rnd_eqI [of "9" "576" "- 43" "5066549580791808"] by simp

lemma r64_r79: "rnd (- 288) = Num (- 288)"
  using rnd_eqI [of "8" "- 288" "- 44" "- 5066549580791808"] by simp

lemma r64_r80: "rnd (- 576) = Num (- 576)"
  using rnd_eqI [of "9" "- 576" "- 43" "- 5066549580791808"] by simp

lemma r64_r81: "rnd (- (1 / 35184372088832)) = Num (- (1 / 35184372088832))"
  using rnd_eqI [of "- 45" "- (1 / 35184372088832)" "- 97" "- 4503599627370496"] by simp

lemma r64_r82: "rnd (331776) = Num (331776)"
  using rnd_eqI [of "18" "331776" "- 34" "5699868278390784"] by simp

lemma r64_r83: "rnd (2304) = Num (2304)"
  using rnd_eqI [of "11" "2304" "- 41" "5066549580791808"] by simp

lemma r64_r84: "rnd (- (9 / 137438953472)) = Num (- (9 / 137438953472))"
  using rnd_eqI [of "- 34" "- (9 / 137438953472)" "- 86" "- 5066549580791808"] by simp

lemma r64_r85: "rnd (45598946227126281 / 137438953472) = Num (5699868278390785 / 17179869184)"
  using rnd_eqI [of "18" "45598946227126281 / 137438953472" "- 34" "5699868278390785"] by simp

lemma r64_r86: "rnd (1152) = Num (1152)"
  using rnd_eqI [of "10" "1152" "- 42" "5066549580791808"] by simp

lemma r64_r87: "rnd (8528691794332877 / 281474976710656) = Num (8528691794332877 / 281474976710656)"
  using rnd_eqI [of "4" "8528691794332877 / 281474976710656" "- 48" "8528691794332877"] by simp

lemma r64_r88: "rnd (- 24) = Num (- 24)"
  using rnd_eqI [of "4" "- 24" "- 48" "- 6755399441055744"] by simp

lemma r64_r89: "rnd (12) = Num (12)"
  using rnd_eqI [of "3" "12" "- 49" "6755399441055744"] by simp

lemma r64_s8: "rnd_sqrt (5699868278390785 / 17179869184) = Num (576)"
  using rnd_sqrt_eqI [of "9" "5699868278390785 / 17179869184" "- 43" "5066549580791808"] by simp

lemmas chord64_roundings = r64_r65 r64_r66 r64_r67 r64_r68 r64_r69 r64_r70 r64_r71 r64_r72 r64_r73 r64_r74 r64_r75 r64_r76 r64_r77 r64_r78 r64_r79 r64_r80 r64_r81 r64_r82 r64_r83 r64_r84 r64_r85 r64_r86 r64_r30 r64_r87 r64_r88 r64_r89 r64_s8

lemma r64_r90: "rnd (464 / 5) = Num (6530219459687219 / 70368744177664)"
  using rnd_eqI [of "6" "464 / 5" "- 46" "6530219459687219"] by simp

lemma r64_r91: "rnd (36 / 5) = Num (8106479329266893 / 1125899906842624)"
  using rnd_eqI [of "2" "36 / 5" "- 50" "8106479329266893"] by simp

lemma r64_r92: "rnd (449 / 5) = Num (6319113227154227 / 70368744177664)"
  using rnd_eqI [of "6" "449 / 5" "- 46" "6319113227154227"] by simp

lemma r64_r93: "rnd (6 / 5) = Num (5404319552844595 / 4503599627370496)"
  using rnd_eqI [of "0" "6 / 5" "- 52" "5404319552844595"] by simp

lemma r64_r94: "rnd (943 / 10) = Num (6635772575953715 / 70368744177664)"
  using rnd_eqI [of "6" "943 / 10" "- 46" "6635772575953715"] by simp

lemma r64_r95: "rnd (9007199254740993 / 4503599627370496) = Num (2)"
proof -
  have "rnd (9007199254740993 / 4503599627370496) = Num (of_int (2 * 2251799813685248) * 2 powi (- 51))"
    by (rule rnd_tie_evenI [of "1"]) simp_all
  then show ?thesis by simp
qed

lemma r64_r96: "rnd (- (3 / 2)) = Num (- (3 / 2))"
  using rnd_eqI [of "0" "- (3 / 2)" "- 52" "- 6755399441055744"] by simp

lemma r64_r97: "rnd (9 / 4) = Num (9 / 4)"
  using rnd_eqI [of "1" "9 / 4" "- 51" "5066549580791808"] by simp

lemma r64_r98: "rnd (25 / 4) = Num (25 / 4)"
  using rnd_eqI [of "2" "25 / 4" "- 50" "7036874417766400"] by simp

lemma r64_r99: "rnd (- 3) = Num (- 3)"
  using rnd_eqI [of "1" "- 3" "- 51" "- 6755399441055744"] by simp

lemma r64_r100: "rnd (625) = Num (625)"
  using rnd_eqI [of "9" "625" "- 43" "5497558138880000"] by simp

lemma r64_r101: "rnd (6530219459687219 / 70368744177664) = Num (6530219459687219 / 70368744177664)"
  using rnd_eqI [of "6" "6530219459687219 / 70368744177664" "- 46" "6530219459687219"] by simp

lemma r64_r102: "rnd (27021597764222977 / 4503599627370496) = Num (6)"
  using rnd_eqI [of "2" "27021597764222977 / 4503599627370496" "- 50" "6755399441055744"] by simp

lemma r64_r103: "rnd (36) = Num (36)"
  using rnd_eqI [of "5" "36" "- 47" "5066549580791808"] by simp

lemma r64_r104: "rnd (81 / 4) = Num (81 / 4)"
  using rnd_eqI [of "4" "81 / 4" "- 48" "5699868278390784"] by simp

lemma r64_r105: "rnd (225 / 4) = Num (225 / 4)"
  using rnd_eqI [of "5" "225 / 4" "- 47" "7916483719987200"] by simp

lemma r64_s9: "rnd_sqrt (625) = Num (25)"
  using rnd_sqrt_eqI [of "4" "625" "- 48" "7036874417766400"] by simp

lemmas grazing64_roundings = r64_r13 r64_r90 r64_r91 r64_r92 r64_r93 r64_r94 r64_r24 r64_r95 r64_r19 r64_r96 r64_r97 r64_r98 r64_r99 r64_r22 r64_r5 r64_r23 r64_r56 r64_r12 r64_r70 r64_r100 r64_r27 r64_r32 r64_r28 r64_r29 r64_r21 r64_r101 r64_r102 r64_r103 r64_r57 r64_r104 r64_r105 r64_s9

lemma lower64_clear:
  "getSegmentCircleIntersections64 (Num 0, Num 0) (Num 10, Num 0) (Num 5, Num 50) (Num 10) = []"
  "\<not> isPointInCircle64 (Num 0) (Num 0) (Num 5) (Num 50) (Num 10)"
  "\<not> isPointInCircle64 (Num 10) (Num 0) (Num 5) (Num 50) (Num 10)"
  by (simp_all add: getSegmentCircleIntersections64_def isPointInCircle64_def sq64_def sub64_def
      ge64_def Let_def clear64_roundings)

theorem first_point_seeds_run_witness:
  "getSegmentCircleIntersections64 (Num 0, Num 0) (Num 10, Num 0) (Num 5, Num 50) (Num 10) = [] \<and>
   \<not> isPointInCircle64 (Num 0) (Num 0) (Num 5) (Num 50) (Num 10) \<and>
   \<not> isPointInCircle64 (Num 10) (Num 0) (Num 5) (Num 50) (Num 10) \<and>
   eraseStroke64 (Num 5) (Num 50) (Num 10) lower64 [dot64] =
     [dot64, lower64\<lparr>id64 := ''a-0''\<rparr>]"
proof -
  have l: "4 \<le> length (points64 lower64)" by (simp add: lower64_def)
  have "eraseStroke64 (Num 5) (Num 50) (Num 10) lower64 [dot64] =
     (if lt64 (add64 (sq64 (sub64 (Num 0) (Num 5))) (sq64 (sub64 (Num 0) (Num 50))))
           (sq64 (Num 10))
      then [dot64] else [dot64] @ [lower64\<lparr>id64 := id64 lower64 @ ''-0''\<rparr>])"
    using first_point_seeds_run [OF l, of "Num 5" "Num 50" "Num 10" "[dot64]"] lower64_clear
    by (elim conjE allE [of _ "Num 0"] allE [of _ "Num 10"]) (simp add: lower64_def)
  then show ?thesis
    using lower64_clear by (simp add: isPointInCircle64_def lower64_def)
qed

text \<open>
  C3 as stated fails. The point \<open>(10, 0)\<close> is on the boundary of the circle of centre
  \<open>(0, 0)\<close> and radius \<open>10\<close>, and it starts the run: the fragment that the eraser emits for
  the stroke from \<open>(10, 0)\<close> to \<open>(20, 0)\<close> begins with it. In double precision the test
  also fails on the point \<open>(3.1, - 3.8)\<close> for the centre \<open>(0.1, 0.2)\<close> and the radius \<open>5\<close>,
  which is strictly inside the circle, so that this point starts a run as well.
\<close>

theorem boundary_point_seeds_run:
  "(10 - 0)\<^sup>2 + (0 - 0)\<^sup>2 = (10::real)\<^sup>2 \<and>
   eraseAtPosition64 (Num 0) (Num 0) [touching64] (Num 10) =
     [touching64\<lparr>id64 := ''t-0'', points64 := [Num 10, Num 0, Num 10, Num 0]\<rparr>] \<and>
   \<not> isPointInCircle64 (rnd (31 / 10)) (rnd (- (19 / 5))) (rnd (1 / 10)) (rnd (1 / 5)) (Num 5) \<and>
   (val (rnd (31 / 10)) - val (rnd (1 / 10)))\<^sup>2 +
     (val (rnd (- (19 / 5))) - val (rnd (1 / 5)))\<^sup>2 < 5\<^sup>2"
proof (intro conjI)
  show "(10 - 0)\<^sup>2 + (0 - 0)\<^sup>2 = (10::real)\<^sup>2" by simp
  show "eraseAtPosition64 (Num 0) (Num 0) [touching64] (Num 10) =
     [touching64\<lparr>id64 := ''t-0'', points64 := [Num 10, Num 0, Num 10, Num 0]\<rparr>]"
    by (simp add: touching64_def eraseAtPosition64_def eraseStroke64_def segmentStep64_def getSegmentCircleIntersections64_def
      isPointInCircle64_def distSq64_def sortByDist64_def sq64_def sub64_def ge64_def
      finishLine64_def pushPoint64_def show_nat_0 show_nat_1 Let_def
      touching64_roundings)
  show "\<not> isPointInCircle64 (rnd (31 / 10)) (rnd (- (19 / 5))) (rnd (1 / 10)) (rnd (1 / 5)) (Num 5)"
    by (simp add: isPointInCircle64_def sq64_def sub64_def inner64_roundings)
  show "(val (rnd (31 / 10)) - val (rnd (1 / 10)))\<^sup>2 +
     (val (rnd (- (19 / 5))) - val (rnd (1 / 5)))\<^sup>2 < 5\<^sup>2"
    by (simp add: inner64_roundings power2_eq_square)
qed

lemma short64_inside:
  "allInside64 (Num 5) (Num 5) (Num 10) (points64 short64)"
  "noIntersections64 (Num 5) (Num 5) (Num 10) (points64 short64)"
  by (simp_all add: short64_def getSegmentCircleIntersections64_def isPointInCircle64_def
      sq64_def sub64_def ge64_def Let_def short64_roundings)

theorem stroke_found_inside_vanishes_witness:
  "allInside64 (Num 5) (Num 5) (Num 10) (points64 short64) \<and>
   noIntersections64 (Num 5) (Num 5) (Num 10) (points64 short64) \<and>
   eraseStroke64 (Num 5) (Num 5) (Num 10) short64 [lower64] = [lower64] \<and>
   eraseAtPosition64 (Num 5) (Num 5) [short64] (Num 10) = []"
  using stroke_found_inside_vanishes [of short64 "Num 5" "Num 5" "Num 10" "[lower64]"]
    short64_inside
  by (simp add: short64_def)

text \<open>
  C4 as stated fails. A stroke of one point at the centre of the circle is returned as it
  is. In double precision a stroke of two points fails it as well: both points of the
  stroke from \<open>(30.3, 45.5)\<close> to \<open>(30.3, 69.5)\<close> are strictly inside the circle of centre
  \<open>(33.8, 57.5)\<close> and radius \<open>12.5\<close>, for the membership test of the source too, and the
  whole stroke comes back as its fragment number 0, since the rounded roots of the
  quadratic are \<open>0\<close> and \<open>1\<close>.
\<close>

theorem stroke_inside_circle_survives:
  "allInside64 (Num 5) (Num 5) (Num 10) (points64 dot64) \<and>
   eraseAtPosition64 (Num 5) (Num 5) [dot64] (Num 10) = [dot64] \<and>
   allInside (val (rnd (169 / 5))) (val (rnd (115 / 2))) (val (rnd (25 / 2)))
     (map val (points64 chord64)) \<and>
   allInside64 (rnd (169 / 5)) (rnd (115 / 2)) (rnd (25 / 2)) (points64 chord64) \<and>
   eraseAtPosition64 (rnd (169 / 5)) (rnd (115 / 2)) [chord64] (rnd (25 / 2)) =
     [chord64\<lparr>id64 := ''s-0''\<rparr>]"
proof (intro conjI)
  show "allInside64 (Num 5) (Num 5) (Num 10) (points64 dot64)"
    by (simp add: dot64_def isPointInCircle64_def sq64_def sub64_def short64_roundings)
  show "eraseAtPosition64 (Num 5) (Num 5) [dot64] (Num 10) = [dot64]"
    by (simp add: dot64_def eraseAtPosition64_def eraseStroke64_def)
  show "allInside (val (rnd (169 / 5))) (val (rnd (115 / 2))) (val (rnd (25 / 2)))
     (map val (points64 chord64))"
    by (simp add: chord64_def isPointInCircle_def chord64_roundings power2_eq_square)
  show "allInside64 (rnd (169 / 5)) (rnd (115 / 2)) (rnd (25 / 2)) (points64 chord64)"
    by (simp add: chord64_def isPointInCircle64_def sq64_def sub64_def chord64_roundings)
  show "eraseAtPosition64 (rnd (169 / 5)) (rnd (115 / 2)) [chord64] (rnd (25 / 2)) =
     [chord64\<lparr>id64 := ''s-0''\<rparr>]"
    by (simp add: chord64_def eraseAtPosition64_def eraseStroke64_def segmentStep64_def getSegmentCircleIntersections64_def
      isPointInCircle64_def distSq64_def sortByDist64_def sq64_def sub64_def ge64_def
      finishLine64_def pushPoint64_def show_nat_0 show_nat_1 Let_def
      chord64_roundings)
qed

lemma lower64_untouched:
  "noIntersections64 (Num 5) (Num 50) (Num 10) (points64 lower64)"
  "noneInside64 (Num 5) (Num 50) (Num 10) (points64 lower64)"
  using lower64_clear by (simp_all add: lower64_def)

lemma erase_clear_shape_lower64:
  "eraseAtPosition64 (Num 5) (Num 50) [lower64] (Num 10) = [lower64\<lparr>id64 := ''a-0''\<rparr>]"
  using lower64_clear
  by (simp add: lower64_def eraseAtPosition64_def eraseStroke64_def segmentStep64_def
      pushPoint64_def finishLine64_def show_nat_0 Let_def)

theorem erase_clear_keeps_shape_witness:
  "noIntersections64 (Num 5) (Num 50) (Num 10) (points64 lower64) \<and>
   noneInside64 (Num 5) (Num 50) (Num 10) (points64 lower64) \<and>
   eraseAtPosition64 (Num 5) (Num 50) [lower64, dot64] (Num 10) =
     [lower64\<lparr>id64 := ''a-0''\<rparr>, dot64]"
  using erase_clear_keeps_shape [of "[lower64, dot64]" "Num 5" "Num 50" "Num 10"]
    lower64_untouched
  by (simp add: lower64_def dot64_def)

text \<open>
  C2 as stated fails. The stroke from \<open>(0, 0)\<close> to \<open>(10, 0)\<close> is far from the circle of
  centre \<open>(5, 50)\<close> and radius \<open>10\<close>, and it comes back under the identifier \<open>a-0\<close>. In
  double precision the points can change as well: every point of the stroke from
  \<open>(3.2, 92.8)\<close> to \<open>(7.2, 89.8)\<close> is strictly outside the circle of centre \<open>(1.2, 94.3)\<close>
  and radius \<open>2.5\<close>, and the eraser returns for it the fragment made of its first point
  twice, since a rounded root of the quadratic is \<open>0\<close>.
\<close>

theorem erase_disjoint_changes_stroke:
  "segmentsOutside (5, 50) 10 (map val (points64 lower64)) \<and>
   eraseAtPosition64 (Num 5) (Num 50) [lower64] (Num 10) = [lower64\<lparr>id64 := ''a-0''\<rparr>] \<and>
   [lower64\<lparr>id64 := ''a-0''\<rparr>] \<noteq> [lower64] \<and>
   segmentsOutside (val (rnd (6 / 5)), val (rnd (943 / 10))) (val (rnd (5 / 2)))
     (map val (points64 grazing64)) \<and>
   eraseAtPosition64 (rnd (6 / 5)) (rnd (943 / 10)) [grazing64] (rnd (5 / 2)) =
     [grazing64\<lparr>id64 := ''s-0'',
        points64 := [rnd (16 / 5), rnd (464 / 5), rnd (16 / 5), rnd (464 / 5)]\<rparr>]"
proof (intro conjI)
  show "segmentsOutside (5, 50) 10 (map val (points64 lower64))"
    using lowerLine_outside by (simp add: lower64_def lowerLine_def)
  show "eraseAtPosition64 (Num 5) (Num 50) [lower64] (Num 10) = [lower64\<lparr>id64 := ''a-0''\<rparr>]"
    using erase_clear_shape_lower64 .
  show "[lower64\<lparr>id64 := ''a-0''\<rparr>] \<noteq> [lower64]"
    by (simp add: lower64_def)
  have "segmentOutside (val (rnd (16 / 5)), val (rnd (464 / 5)))
     (val (rnd (36 / 5)), val (rnd (449 / 5))) (val (rnd (6 / 5)), val (rnd (943 / 10)))
     (val (rnd (5 / 2)))"
    by (rule segmentOutside_moving_away)
      (simp_all add: grazing64_roundings distSq_def power2_eq_square)
  then show "segmentsOutside (val (rnd (6 / 5)), val (rnd (943 / 10))) (val (rnd (5 / 2)))
     (map val (points64 grazing64))"
    by (simp add: grazing64_def)
  show "eraseAtPosition64 (rnd (6 / 5)) (rnd (943 / 10)) [grazing64] (rnd (5 / 2)) =
     [grazing64\<lparr>id64 := ''s-0'',
        points64 := [rnd (16 / 5), rnd (464 / 5), rnd (16 / 5), rnd (464 / 5)]\<rparr>]"
    by (simp add: grazing64_def eraseAtPosition64_def eraseStroke64_def segmentStep64_def getSegmentCircleIntersections64_def
      isPointInCircle64_def distSq64_def sortByDist64_def sq64_def sub64_def ge64_def
      finishLine64_def pushPoint64_def show_nat_0 show_nat_1 Let_def
      grazing64_roundings)
qed

end
